theory Spec2Isabelle
  imports Main "HOL-Library.Multiset"
begin

section \<open>Data model\<close>

text \<open>
  Identifiers are the uuids of the \<open>messages\<close> table and of \<open>profiles\<close>; they are opaque
  and only compared, so they are modelled as natural numbers. \<open>created_at\<close> is a
  \<open>timestamptz\<close>, modelled as a number of microseconds.

  Text that the program trims, measures or shows (message content, the composer, file
  names, previews) is a list of Unicode code points, so that \<open>length\<close> is the
  \<open>char_length\<close> of the database. The functions of the client modelled here only trim
  such a text, test it for emptiness and replace whitespace in it, and all whitespace lies
  in the basic plane, where code points and JavaScript's code units agree. Urls, mime types,
  display names and alert titles are only passed on and stay \<open>string\<close>s. \<open>ascii\<close> writes
  such a text from the characters of a \<open>string\<close> literal.
\<close>

type_synonym uuid = nat
type_synonym timestamp = nat
type_synonym codepoint = nat
type_synonym ustring = "codepoint list"

definition ascii :: "string \<Rightarrow> ustring" where
  "ascii s = map of_char s"

datatype MessageAttachmentType = Image | Video | Document

record AttachmentMetadata =
  file_name :: ustring
  file_size :: nat
  mime_type :: "string option"

record Message =
  id_msg :: uuid
  sender_id :: uuid
  recipient_id :: uuid
  content :: ustring
  read :: bool
  created_at :: timestamp
  attachment_url :: "string option"
  attachment_type :: "MessageAttachmentType option"
  attachment_metadata :: "AttachmentMetadata option"

section \<open>The messages table: constraints and row level security\<close>

text \<open>
  \<open>messages_content_check\<close> as the migration \<open>20251126120000_enhance_messages_with_media\<close>
  re-creates it (the column check of the initial schema has the same name and is dropped
  there):
  \<^verbatim>\<open>(char_length(content) between 1 and 1000)
    or (attachment_url is not null and char_length(content) <= 1000)\<close>
  \<open>content\<close> is \<open>not null\<close>, so the check is two-valued.
\<close>

definition messages_content_check :: "Message \<Rightarrow> bool" where
  "messages_content_check m \<longleftrightarrow>
     (1 \<le> length (content m) \<and> length (content m) \<le> 1000)
     \<or> (attachment_url m \<noteq> None \<and> length (content m) \<le> 1000)"

text \<open>
  \<open>messages_content_length_check\<close> of the security hardening script:
  \<^verbatim>\<open>(content IS NULL OR char_length(content) <= 1000) OR (attachment_url IS NOT NULL)\<close>
\<close>

definition messages_content_length_check :: "Message \<Rightarrow> bool" where
  "messages_content_length_check m \<longleftrightarrow>
     length (content m) \<le> 1000 \<or> attachment_url m \<noteq> None"

text \<open>Every check constraint of the table; a written row has to pass all of them.\<close>

definition row_checks :: "Message \<Rightarrow> bool" where
  "row_checks m \<longleftrightarrow> messages_content_check m \<and> messages_content_length_check m"

text \<open>
  The policies. All of them are permissive, so the policies of one command are joined
  by \<open>or\<close>: for \<open>update\<close> these are "Recipients can mark messages read" of the initial
  schema, "Senders can update messages" of the media migration and "Senders can update
  own messages" of the hardening script.
\<close>

definition rls_select :: "uuid \<Rightarrow> Message \<Rightarrow> bool" where
  "rls_select uid m \<longleftrightarrow> uid = sender_id m \<or> uid = recipient_id m"

definition rls_insert :: "uuid \<Rightarrow> Message \<Rightarrow> bool" where
  "rls_insert uid m \<longleftrightarrow> uid = sender_id m"

definition rls_update :: "uuid \<Rightarrow> Message \<Rightarrow> bool" where
  "rls_update uid m \<longleftrightarrow> uid = recipient_id m \<or> uid = sender_id m"

definition rls_delete :: "uuid \<Rightarrow> Message \<Rightarrow> bool" where
  "rls_delete uid m \<longleftrightarrow> uid = sender_id m"

datatype db_error = CheckViolation | RlsViolation | UniqueViolation | ForeignKeyViolation

text \<open>
  The table is the list of its rows in physical order. A statement runs as the
  authenticated user \<open>uid\<close>. An insert is refused by the \<open>with check\<close> of the insert
  policy, by a check constraint, by the primary key, or by the foreign keys
  \<open>sender_id\<close>, \<open>recipient_id\<close> \<open>references profiles(id)\<close>; \<open>ps\<close> are the ids in \<open>profiles\<close>.
  The updates of the program never write the two key columns. An update or a delete silently
  skips the rows its policy hides and reports no error for them; an update is refused
  as a whole when a row it writes fails a \<open>with check\<close> or a check constraint, or
  when it would leave two rows with one primary key.
\<close>

definition db_insert ::
  "uuid \<Rightarrow> uuid list \<Rightarrow> Message \<Rightarrow> Message list \<Rightarrow> db_error + Message list" where
  "db_insert uid ps row s =
     (if \<not> rls_insert uid row then Inl RlsViolation
      else if \<not> row_checks row then Inl CheckViolation
      else if id_msg row \<in> set (map id_msg s) then Inl UniqueViolation
      else if sender_id row \<notin> set ps \<or> recipient_id row \<notin> set ps then Inl ForeignKeyViolation
      else Inr (s @ [row]))"

definition targets :: "(Message \<Rightarrow> bool) \<Rightarrow> (uuid \<Rightarrow> Message \<Rightarrow> bool) \<Rightarrow> uuid \<Rightarrow> Message \<Rightarrow> bool" where
  "targets flt pol uid m \<longleftrightarrow> flt m \<and> rls_select uid m \<and> pol uid m"

definition db_update ::
  "uuid \<Rightarrow> (Message \<Rightarrow> bool) \<Rightarrow> (Message \<Rightarrow> Message) \<Rightarrow> Message list \<Rightarrow> db_error + Message list" where
  "db_update uid flt upd s =
     (if list_ex (\<lambda>m. targets flt rls_update uid m \<and> \<not> rls_update uid (upd m)) s
        then Inl RlsViolation
      else if list_ex (\<lambda>m. targets flt rls_update uid m \<and> \<not> row_checks (upd m)) s
        then Inl CheckViolation
      else if \<not> distinct (map id_msg (map (\<lambda>m. if targets flt rls_update uid m then upd m else m) s))
        then Inl UniqueViolation
      else Inr (map (\<lambda>m. if targets flt rls_update uid m then upd m else m) s))"

definition db_delete :: "uuid \<Rightarrow> (Message \<Rightarrow> bool) \<Rightarrow> Message list \<Rightarrow> db_error + Message list" where
  "db_delete uid flt s = Inr (filter (\<lambda>m. \<not> targets flt rls_delete uid m) s)"

definition db_select :: "uuid \<Rightarrow> (Message \<Rightarrow> bool) \<Rightarrow> Message list \<Rightarrow> Message list" where
  "db_select uid flt s = filter (\<lambda>m. flt m \<and> rls_select uid m) s"

text \<open>
  \<open>.order('created_at', { ascending: true })\<close> and \<open>{ ascending: false }\<close>. The sort is
  by \<open>created_at\<close> alone. The database leaves the order among rows of equal
  \<open>created_at\<close> open; the two functions return one of the orders it allows (the one that
  follows the physical order of the table), and never look at the ids. What is proved
  of the conversation list below is proved for every list of the fetched rows that is
  newest first, whatever its order among equal keys (\<open>newest_first\<close>).
\<close>

definition order_asc :: "Message list \<Rightarrow> Message list" where
  "order_asc xs = sort_key created_at xs"

definition order_desc :: "Message list \<Rightarrow> Message list" where
  "order_desc xs = rev (sort_key created_at xs)"

text \<open>
  The tables a sequence of statements by any users can produce, from the empty one. The
  last rule is \<open>on delete cascade\<close>: deleting the profile \<open>p\<close> deletes the messages it
  sent or received.
\<close>

inductive store_reach :: "Message list \<Rightarrow> bool" where
  reach_empty: "store_reach []"
| reach_insert: "store_reach s \<Longrightarrow> db_insert uid ps row s = Inr s' \<Longrightarrow> store_reach s'"
| reach_update: "store_reach s \<Longrightarrow> db_update uid flt upd s = Inr s' \<Longrightarrow> store_reach s'"
| reach_delete: "store_reach s \<Longrightarrow> db_delete uid flt s = Inr s' \<Longrightarrow> store_reach s'"
| reach_cascade:
    "store_reach s \<Longrightarrow> store_reach (filter (\<lambda>m. sender_id m \<noteq> p \<and> recipient_id m \<noteq> p) s)"


section \<open>The chat screen\<close>

text \<open>
  The code points that \<open>String.prototype.trim\<close> strips and that \<open>\s\<close> matches: the white
  space of ECMAScript (tab, vertical tab, form feed, space, no-break space, U+FEFF and
  the space separators U+1680, U+2000 to U+200A, U+202F, U+205F, U+3000) and its line
  terminators (line feed, carriage return, U+2028, U+2029).
\<close>

definition is_space :: "codepoint \<Rightarrow> bool" where
  "is_space c \<longleftrightarrow>
     c \<in> set [0x09, 0x0A, 0x0B, 0x0C, 0x0D, 0x20, 0xA0, 0x1680, 0x2028, 0x2029, 0x202F,
               0x205F, 0x3000, 0xFEFF]
     \<or> (0x2000 \<le> c \<and> c \<le> 0x200A)"

definition trim :: "ustring \<Rightarrow> ustring" where
  "trim s = rev (dropWhile is_space (rev (dropWhile is_space s)))"

text \<open>\<^verbatim>\<open>fileName.replace(/\s+/g, '-')\<close>: each run of whitespace becomes one dash.\<close>

fun replace_runs :: "bool \<Rightarrow> ustring \<Rightarrow> ustring" where
  "replace_runs in_run [] = []"
| "replace_runs in_run (c # cs) =
     (if is_space c then (if in_run then replace_runs True cs else 0x2D # replace_runs True cs)
      else c # replace_runs False cs)"

definition safeFileName :: "ustring \<Rightarrow> ustring" where
  "safeFileName fn = replace_runs False fn"

record PendingAttachment =
  uri :: string
  type_pa :: MessageAttachmentType
  fileName :: ustring
  mimeType :: "string option"
  size_pa :: "nat option"

text \<open>
  The component state of \<open>ChatScreen\<close>: the session user, the route parameter \<open>id\<close>
  (the counterpart), the \<open>useState\<close> cells, and the titles of the alerts shown so far.
\<close>

record ChatScreen =
  user :: "uuid option"
  id_chat :: "uuid option"
  messages :: "Message list"
  newMessage :: ustring
  sending :: bool
  pendingAttachment :: "PendingAttachment option"
  uploadingAttachment :: bool
  editingMessage :: "Message option"
  alerts :: "string list"

text \<open>
  The backend: the messages table, the ids in \<open>profiles\<close>, and the objects of the
  \<open>chat-media\<close> bucket, each under its path \<open>{user.id}/{Date.now()}-{safeFileName}\<close>.
\<close>

type_synonym path = "uuid \<times> timestamp \<times> ustring"

record server =
  tbl :: "Message list"
  profile_ids :: "uuid list"
  chat_media :: "path list"

text \<open>
  What one call takes from outside: the id and the time the database assigns to a new
  row (\<open>gen_random_uuid()\<close>, \<open>now()\<close>), the clock of the client, the bytes that
  \<open>fetch(attachment.uri)\<close> reads (\<open>None\<close> when it throws), whether the storage service
  answers, and \<open>getPublicUrl\<close> (\<open>None\<close> when \<open>publicUrl\<close> is missing or empty).
\<close>

record env =
  new_id :: uuid
  db_now :: timestamp
  date_now :: timestamp
  fetch_bytes :: "nat option"
  storage_up :: bool
  getPublicUrl :: "path \<Rightarrow> string option"

type_synonym attachmentPayload = "string \<times> MessageAttachmentType \<times> AttachmentMetadata"

definition between :: "uuid \<Rightarrow> uuid \<Rightarrow> Message \<Rightarrow> bool" where
  "between a b m \<longleftrightarrow>
     (sender_id m = a \<and> recipient_id m = b) \<or> (sender_id m = b \<and> recipient_id m = a)"

text \<open>The query of \<open>fetchMessages\<close>, run as \<open>user.id\<close> against the table.\<close>

definition listBetween :: "uuid \<Rightarrow> uuid \<Rightarrow> Message list \<Rightarrow> Message list" where
  "listBetween u i s = order_asc (db_select u (between u i) s)"

definition fetchMessages :: "server \<times> ChatScreen \<Rightarrow> server \<times> ChatScreen" where
  "fetchMessages w =
     (case w of (sv, st) \<Rightarrow>
        (case (user st, id_chat st) of
           (Some u, Some i) \<Rightarrow> (sv, st\<lparr>messages := listBetween u i (tbl sv)\<rparr>)
         | _ \<Rightarrow> (sv, st)))"

text \<open>The statement of \<open>markAsRead\<close>; its result is not looked at by the caller.\<close>

definition markAsRead_query :: "uuid \<Rightarrow> uuid \<Rightarrow> Message list \<Rightarrow> db_error + Message list" where
  "markAsRead_query u i s =
     db_update u (\<lambda>m. sender_id m = i \<and> recipient_id m = u \<and> read m = False)
       (\<lambda>m. m\<lparr>read := True\<rparr>) s"

definition markAsRead :: "server \<times> ChatScreen \<Rightarrow> server \<times> ChatScreen" where
  "markAsRead w =
     (case w of (sv, st) \<Rightarrow>
        (case (user st, id_chat st) of
           (Some u, Some i) \<Rightarrow>
             (case markAsRead_query u i (tbl sv) of
                Inl e \<Rightarrow> (sv, st)
              | Inr d \<Rightarrow> (sv\<lparr>tbl := d\<rparr>, st))
         | _ \<Rightarrow> (sv, st)))"

definition resetComposer :: "ChatScreen \<Rightarrow> ChatScreen" where
  "resetComposer st = st\<lparr>newMessage := [], pendingAttachment := None, editingMessage := None\<rparr>"

definition removePendingAttachment :: "ChatScreen \<Rightarrow> ChatScreen" where
  "removePendingAttachment st = st\<lparr>pendingAttachment := None\<rparr>"

definition startEditingMessage :: "Message \<Rightarrow> ChatScreen \<Rightarrow> ChatScreen" where
  "startEditingMessage message st =
     st\<lparr>editingMessage := Some message, newMessage := content message, pendingAttachment := None\<rparr>"

definition cancelEditing :: "ChatScreen \<Rightarrow> ChatScreen" where
  "cancelEditing st = st\<lparr>editingMessage := None, newMessage := []\<rparr>"

text \<open>The statement of \<open>deleteMessage\<close>.\<close>

definition delete_query :: "uuid \<Rightarrow> Message \<Rightarrow> Message list \<Rightarrow> db_error + Message list" where
  "delete_query u message s =
     db_delete u (\<lambda>m. id_msg m = id_msg message \<and> sender_id m = u) s"

definition deleteMessage :: "Message \<Rightarrow> server \<times> ChatScreen \<Rightarrow> server \<times> ChatScreen" where
  "deleteMessage message w =
     (case w of (sv, st) \<Rightarrow>
        (case user st of
           None \<Rightarrow> (sv, st)
         | Some u \<Rightarrow>
             (case delete_query u message (tbl sv) of
                Inl e \<Rightarrow> (sv, st\<lparr>alerts := alerts st @ [''Delete failed'']\<rparr>)
              | Inr d \<Rightarrow>
                  (let st1 = st\<lparr>messages := filter (\<lambda>msg. id_msg msg \<noteq> id_msg message) (messages st)\<rparr>
                   in (sv\<lparr>tbl := d\<rparr>,
                       if map_option id_msg (editingMessage st) = Some (id_msg message)
                       then resetComposer st1 else st1)))))"

text \<open>The long-press menu: nothing for a message of somebody else, else the user's choice.\<close>

datatype menu_choice = Cancel | Edit | Delete

definition handleMessageLongPress ::
  "menu_choice \<Rightarrow> Message \<Rightarrow> server \<times> ChatScreen \<Rightarrow> server \<times> ChatScreen" where
  "handleMessageLongPress choice message w =
     (case w of (sv, st) \<Rightarrow>
        if Some (sender_id message) \<noteq> user st then (sv, st)
        else (case choice of
                Cancel \<Rightarrow> (sv, st)
              | Edit \<Rightarrow> (sv, startEditingMessage message st)
              | Delete \<Rightarrow> deleteMessage message (sv, st)))"

definition isRelevantMessage :: "ChatScreen \<Rightarrow> Message \<Rightarrow> bool" where
  "isRelevantMessage st message =
     (case (user st, id_chat st) of
        (Some u, Some i) \<Rightarrow>
          (sender_id message = u \<and> recipient_id message = i)
          \<or> (sender_id message = i \<and> recipient_id message = u)
      | _ \<Rightarrow> False)"

text \<open>
  The three handlers of \<open>subscribeToMessages\<close>. The payload carries a whole row, so the
  spread \<open>{ ...msg, ...updatedMsg }\<close> is \<open>updatedMsg\<close>; \<open>payload.old\<close> may be missing.
\<close>

definition on_INSERT :: "Message \<Rightarrow> server \<times> ChatScreen \<Rightarrow> server \<times> ChatScreen" where
  "on_INSERT newMsg w =
     (case w of (sv, st) \<Rightarrow>
        if isRelevantMessage st newMsg then
          (let w1 = (sv, st\<lparr>messages := messages st @ [newMsg]\<rparr>)
           in if Some (sender_id newMsg) = id_chat st then markAsRead w1 else w1)
        else (sv, st))"

definition on_UPDATE :: "Message \<Rightarrow> server \<times> ChatScreen \<Rightarrow> server \<times> ChatScreen" where
  "on_UPDATE updatedMsg w =
     (case w of (sv, st) \<Rightarrow>
        if isRelevantMessage st updatedMsg then
          (sv, st\<lparr>messages := map (\<lambda>msg. if id_msg msg = id_msg updatedMsg then updatedMsg else msg)
                                  (messages st)\<rparr>)
        else (sv, st))"

definition on_DELETE :: "Message option \<Rightarrow> server \<times> ChatScreen \<Rightarrow> server \<times> ChatScreen" where
  "on_DELETE old w =
     (case w of (sv, st) \<Rightarrow>
        (case old of
           None \<Rightarrow> (sv, st)
         | Some deletedMsg \<Rightarrow>
             if isRelevantMessage st deletedMsg then
               (sv, st\<lparr>messages := filter (\<lambda>msg. id_msg msg \<noteq> id_msg deletedMsg) (messages st)\<rparr>)
             else (sv, st)))"

definition upload_failed :: "ChatScreen \<Rightarrow> ChatScreen" where
  "upload_failed st = st\<lparr>alerts := alerts st @ [''Upload failed''], uploadingAttachment := False\<rparr>"

text \<open>
  \<open>uploadAttachment\<close>: \<open>null\<close> without a user; otherwise read the file, store it with
  \<open>upsert: false\<close> (an existing path is an error), ask for the public url. Every throw
  ends in the \<open>catch\<close>, which alerts and returns \<open>null\<close>; \<open>finally\<close> clears the flag.
\<close>

definition uploadAttachment ::
  "env \<Rightarrow> PendingAttachment \<Rightarrow> server \<times> ChatScreen \<Rightarrow> attachmentPayload option \<times> server \<times> ChatScreen" where
  "uploadAttachment e attachment w =
     (case w of (sv, st) \<Rightarrow>
        (case user st of
           None \<Rightarrow> (None, sv, st)
         | Some u \<Rightarrow>
             (case fetch_bytes e of
                None \<Rightarrow> (None, sv, upload_failed st)
              | Some byteLength \<Rightarrow>
                  (let filePath = (u, date_now e, safeFileName (fileName attachment))
                   in if \<not> storage_up e \<or> filePath \<in> set (chat_media sv)
                      then (None, sv, upload_failed st)
                      else
                        (let sv1 = sv\<lparr>chat_media := chat_media sv @ [filePath]\<rparr>
                         in (case getPublicUrl e filePath of
                               None \<Rightarrow> (None, sv1, upload_failed st)
                             | Some url \<Rightarrow>
                                 (Some (url, type_pa attachment,
                                        \<lparr>file_name = fileName attachment,
                                         file_size = (case size_pa attachment of
                                                        Some n \<Rightarrow> n | None \<Rightarrow> byteLength),
                                         mime_type = mimeType attachment\<rparr>),
                                  sv1, st\<lparr>uploadingAttachment := False\<rparr>)))))))"

text \<open>The statement of the edit path of \<open>sendMessage\<close>.\<close>

definition edit_query :: "uuid \<Rightarrow> Message \<Rightarrow> ustring \<Rightarrow> Message list \<Rightarrow> db_error + Message list" where
  "edit_query u em c s =
     db_update u (\<lambda>m. id_msg m = id_msg em \<and> sender_id m = u) (\<lambda>m. m\<lparr>content := c\<rparr>) s"

definition edit_path :: "uuid \<Rightarrow> Message \<Rightarrow> ustring \<Rightarrow> server \<times> ChatScreen \<Rightarrow> server \<times> ChatScreen" where
  "edit_path u em trimmedMessage w =
     (case w of (sv, st) \<Rightarrow>
        (case edit_query u em trimmedMessage (tbl sv) of
           Inl e \<Rightarrow> (sv, st\<lparr>alerts := alerts st @ [''Edit failed''], sending := False\<rparr>)
         | Inr d \<Rightarrow>
             (sv\<lparr>tbl := d\<rparr>,
              (resetComposer
                 (st\<lparr>messages :=
                       map (\<lambda>msg. if id_msg msg = id_msg em then msg\<lparr>content := trimmedMessage\<rparr> else msg)
                         (messages st)\<rparr>))\<lparr>sending := False\<rparr>)))"

text \<open>The row \<open>sendMessage\<close> inserts; the database fills in \<open>id\<close> and \<open>created_at\<close>.\<close>

definition new_row :: "env \<Rightarrow> uuid \<Rightarrow> uuid \<Rightarrow> ustring \<Rightarrow> attachmentPayload option \<Rightarrow> Message" where
  "new_row e u i trimmedMessage attachmentPayload =
     \<lparr>id_msg = new_id e, sender_id = u, recipient_id = i, content = trimmedMessage,
      read = False, created_at = db_now e,
      attachment_url = map_option fst attachmentPayload,
      attachment_type = map_option (fst \<circ> snd) attachmentPayload,
      attachment_metadata = map_option (snd \<circ> snd) attachmentPayload\<rparr>"

definition insert_path ::
  "env \<Rightarrow> uuid \<Rightarrow> uuid \<Rightarrow> ustring \<Rightarrow> attachmentPayload option \<Rightarrow> server \<times> ChatScreen \<Rightarrow> server \<times> ChatScreen" where
  "insert_path e u i trimmedMessage attachmentPayload w =
     (case w of (sv, st) \<Rightarrow>
        (case db_insert u (profile_ids sv) (new_row e u i trimmedMessage attachmentPayload) (tbl sv) of
           Inl err \<Rightarrow> (sv, st\<lparr>alerts := alerts st @ [''Message failed''], sending := False\<rparr>)
         | Inr d \<Rightarrow>
             (sv\<lparr>tbl := d\<rparr>,
              (resetComposer
                 (st\<lparr>messages := messages st @ [new_row e u i trimmedMessage attachmentPayload]\<rparr>))
              \<lparr>sending := False\<rparr>)))"

text \<open>
  \<open>sendMessage\<close>. The calls it awaits run to their end before anything else touches
  the state; \<open>sending\<close> is set while they run and cleared on every way out.
\<close>

definition sendMessage :: "env \<Rightarrow> server \<times> ChatScreen \<Rightarrow> server \<times> ChatScreen" where
  "sendMessage e w =
     (case w of (sv, st) \<Rightarrow>
        (case (user st, id_chat st) of
           (Some u, Some i) \<Rightarrow>
             if sending st then (sv, st)
             else
               (let trimmedMessage = trim (newMessage st);
                    hasAttachment = (pendingAttachment st \<noteq> None);
                    isEditing = (editingMessage st \<noteq> None)
                in if trimmedMessage = [] \<and> \<not> hasAttachment then (sv, st)
                   else if isEditing \<and> trimmedMessage = [] then (sv, st)
                   else
                     (case editingMessage st of
                        Some em \<Rightarrow> edit_path u em trimmedMessage (sv, st)
                      | None \<Rightarrow>
                          (case pendingAttachment st of
                             None \<Rightarrow> insert_path e u i trimmedMessage None (sv, st)
                           | Some pa \<Rightarrow>
                               (case uploadAttachment e pa (sv, st\<lparr>sending := True\<rparr>) of
                                  (None, sv1, st1) \<Rightarrow> (sv1, st1\<lparr>sending := False\<rparr>)
                                | (Some payload, sv1, st1) \<Rightarrow>
                                    insert_path e u i trimmedMessage (Some payload) (sv1, st1)))))
         | _ \<Rightarrow> (sv, st)))"

definition canSend :: "ChatScreen \<Rightarrow> bool" where
  "canSend st =
     (if editingMessage st \<noteq> None then trim (newMessage st) \<noteq> []
      else trim (newMessage st) \<noteq> [] \<or> pendingAttachment st \<noteq> None)"

section \<open>The conversation list\<close>

record Conversation =
  id_conv :: uuid
  otherUserId :: uuid
  otherUserName :: string
  lastMessage :: ustring
  lastMessageTime :: timestamp
  unreadCount :: nat

text \<open>
  The placeholders are the literals of the file, code point by code point: each starts
  with the four characters U+00F0, U+0178 and two more (U+201C U+00B7 for the photo,
  U+017D U+00A5 for the video, U+201C U+201E for the document), then a space and the word.
\<close>

definition getMessagePreview :: "Message \<Rightarrow> ustring" where
  "getMessagePreview msg =
     (if content msg \<noteq> [] \<and> length (trim (content msg)) > 0 then content msg
      else if attachment_type msg = Some Image
        then [0xF0, 0x178, 0x201C, 0xB7] @ ascii '' Photo''
      else if attachment_type msg = Some Video
        then [0xF0, 0x178, 0x17D, 0xA5] @ ascii '' Video''
      else if attachment_type msg = Some Document
        then [0xF0, 0x178, 0x201C, 0x201E] @ ascii '' Document''
      else ascii ''New message'')"

definition otherUserId_of :: "uuid \<Rightarrow> Message \<Rightarrow> uuid" where
  "otherUserId_of u msg = (if sender_id msg = u then recipient_id msg else sender_id msg)"

text \<open>
  \<open>profileNames\<close>: company names first (a later row overwrites), then investor names
  for the ids that have none yet. The rows are those the two profile queries return.
\<close>

definition profileNames :: "(uuid \<times> string) list \<Rightarrow> (uuid \<times> string) list \<Rightarrow> (uuid \<rightharpoonup> string)" where
  "profileNames startupResult investorResult =
     fold (\<lambda>(k, v) pn. if pn k = None then pn(k \<mapsto> v) else pn) investorResult
       (fold (\<lambda>(k, v) pn. pn(k \<mapsto> v)) startupResult Map.empty)"

definition new_conversation :: "(uuid \<rightharpoonup> string) \<Rightarrow> uuid \<Rightarrow> Message \<Rightarrow> Conversation" where
  "new_conversation pn other msg =
     \<lparr>id_conv = other, otherUserId = other,
      otherUserName = (case pn other of None \<Rightarrow> ''User'' | Some n \<Rightarrow> if n = [] then ''User'' else n),
      lastMessage = getMessagePreview msg,
      lastMessageTime = created_at msg,
      unreadCount = 0\<rparr>"

text \<open>
  \<open>conversationMap\<close> is a JavaScript \<open>Map\<close>: a list of entries in insertion order, with
  at most one entry for a key. \<open>set\<close> on a key that is absent appends an entry;
  \<open>get(otherUserId)!.unreadCount += 1\<close> changes the entry of the key in place.
\<close>

definition set_if_absent ::
  "uuid \<Rightarrow> Conversation \<Rightarrow> (uuid \<times> Conversation) list \<Rightarrow> (uuid \<times> Conversation) list" where
  "set_if_absent other c conversationMap =
     (if map_of conversationMap other = None then conversationMap @ [(other, c)]
      else conversationMap)"

definition bump_unread :: "uuid \<Rightarrow> (uuid \<times> Conversation) list \<Rightarrow> (uuid \<times> Conversation) list" where
  "bump_unread other conversationMap =
     map (\<lambda>(k, c). if k = other then (k, c\<lparr>unreadCount := unreadCount c + 1\<rparr>) else (k, c))
       conversationMap"

text \<open>One turn of the loop over the fetched messages.\<close>

definition conversation_step ::
  "uuid \<Rightarrow> (uuid \<rightharpoonup> string) \<Rightarrow> Message \<Rightarrow> (uuid \<times> Conversation) list \<Rightarrow> (uuid \<times> Conversation) list" where
  "conversation_step u pn msg conversationMap =
     (let other = otherUserId_of u msg;
          cm1 = set_if_absent other (new_conversation pn other msg) conversationMap
      in if sender_id msg = other \<and> recipient_id msg = u \<and> \<not> read msg
         then bump_unread other cm1
         else cm1)"

definition build_conversations ::
  "uuid \<Rightarrow> (uuid \<rightharpoonup> string) \<Rightarrow> Message list \<Rightarrow> Conversation list" where
  "build_conversations u pn msgs = map snd (fold (conversation_step u pn) msgs [])"

text \<open>
  The query of \<open>fetchConversations\<close>: the messages the viewer sent or received, newest
  first.
\<close>

definition viewer_messages :: "uuid \<Rightarrow> Message list \<Rightarrow> Message list" where
  "viewer_messages u s = order_desc (db_select u (\<lambda>m. sender_id m = u \<or> recipient_id m = u) s)"

text \<open>
  What the database promises of that query: the fetched rows are the rows of the viewer,
  each as often as it is stored, in non-increasing order of \<open>created_at\<close>.
\<close>

definition newest_first :: "uuid \<Rightarrow> Message list \<Rightarrow> Message list \<Rightarrow> bool" where
  "newest_first u s msgs \<longleftrightarrow>
     mset msgs = filter_mset (\<lambda>m. sender_id m = u \<or> recipient_id m = u) (mset s)
     \<and> sorted_wrt (\<ge>) (map created_at msgs)"

text \<open>
  \<open>fetchConversations\<close>: the query, the names of the counterparts, then the loop. Without
  a user the list on the screen stays as it is.
\<close>

definition fetchConversations ::
  "uuid option \<Rightarrow> (uuid \<times> string) list \<Rightarrow> (uuid \<times> string) list \<Rightarrow> Message list
     \<Rightarrow> Conversation list \<Rightarrow> Conversation list" where
  "fetchConversations usr startup_profiles investor_profiles s conversations =
     (case usr of
        None \<Rightarrow> conversations
      | Some u \<Rightarrow>
          (let msgs = viewer_messages u s;
               uniqueUserIds = remdups (map (otherUserId_of u) msgs);
               pn = profileNames (filter (\<lambda>p. fst p \<in> set uniqueUserIds) startup_profiles)
                                 (filter (\<lambda>p. fst p \<in> set uniqueUserIds) investor_profiles)
           in build_conversations u pn msgs))"

text \<open>
  Two readings of the map, used to state what the loop keeps: the unread count filed
  under a key (0 when the key is absent), and the preview and time filed under it.
\<close>

definition unread_of :: "(uuid \<times> Conversation) list \<Rightarrow> uuid \<Rightarrow> nat" where
  "unread_of cm k = (case map_of cm k of None \<Rightarrow> 0 | Some c \<Rightarrow> unreadCount c)"

definition face_of :: "(uuid \<times> Conversation) list \<Rightarrow> uuid \<Rightarrow> (ustring \<times> timestamp) option" where
  "face_of cm k = map_option (\<lambda>c. (lastMessage c, lastMessageTime c)) (map_of cm k)"

section \<open>The ordering the specification names\<close>

text \<open>
  The specification's order for the result of \<open>listBetween\<close>, in its own words: by
  \<open>created_at\<close> ascending, ties broken by id ascending.
\<close>

definition spec_time_then_id_le :: "Message \<Rightarrow> Message \<Rightarrow> bool" where
  "spec_time_then_id_le a b \<longleftrightarrow>
     created_at a < created_at b \<or> (created_at a = created_at b \<and> id_msg a \<le> id_msg b)"

section \<open>Example data\<close>

text \<open>
  Two users, 10 and 20. User 10 wrote \<open>msg_hello\<close>, user 20 answered with \<open>msg_reply\<close> in
  the same microsecond; \<open>chat_ab\<close> is the chat screen of user 10 opened on user 20.
\<close>

definition msg_hello :: Message where
  "msg_hello = \<lparr>id_msg = 2, sender_id = 10, recipient_id = 20, content = ascii ''hello'', read = False,
     created_at = 100, attachment_url = None, attachment_type = None, attachment_metadata = None\<rparr>"

definition msg_reply :: Message where
  "msg_reply = \<lparr>id_msg = 1, sender_id = 20, recipient_id = 10, content = ascii ''hi'', read = False,
     created_at = 100, attachment_url = None, attachment_type = None, attachment_metadata = None\<rparr>"

definition chat_ab :: ChatScreen where
  "chat_ab = \<lparr>user = Some 10, id_chat = Some 20, messages = [], newMessage = [], sending = False,
     pendingAttachment = None, uploadingAttachment = False, editingMessage = None, alerts = []\<rparr>"

definition server_ab :: server where
  "server_ab = \<lparr>tbl = [msg_hello], profile_ids = [10, 20, 30], chat_media = []\<rparr>"

text \<open>
  User 10 attaches \<open>photo\<close> to the text "look"; \<open>env_offline\<close> is a call during which the
  storage service does not answer, \<open>env_online\<close> one during which it does. \<open>msg_photo\<close> is
  the row the second one creates, and \<open>chat_edit_photo\<close> the screen while user 10 edits
  that row down to a no-break space and a space.
\<close>

definition env_offline :: env where
  "env_offline = \<lparr>new_id = 3, db_now = 200, date_now = 150, fetch_bytes = Some 2048,
     storage_up = False, getPublicUrl = (\<lambda>p. Some ''https://cdn.example/photo.jpg'')\<rparr>"

definition env_online :: env where
  "env_online = env_offline\<lparr>storage_up := True\<rparr>"

definition photo :: PendingAttachment where
  "photo = \<lparr>uri = ''file:///photo.jpg'', type_pa = Image, fileName = ascii ''my photo.jpg'',
     mimeType = Some ''image/jpeg'', size_pa = None\<rparr>"

definition chat_photo :: ChatScreen where
  "chat_photo = chat_ab\<lparr>messages := [msg_hello], newMessage := ascii '' look '',
     pendingAttachment := Some photo\<rparr>"

definition msg_photo :: Message where
  "msg_photo = \<lparr>id_msg = 3, sender_id = 10, recipient_id = 20, content = ascii ''look'', read = False,
     created_at = 200, attachment_url = Some ''https://cdn.example/photo.jpg'',
     attachment_type = Some Image,
     attachment_metadata = Some \<lparr>file_name = ascii ''my photo.jpg'', file_size = 2048,
                                  mime_type = Some ''image/jpeg''\<rparr>\<rparr>"

definition chat_edit_photo :: ChatScreen where
  "chat_edit_photo = chat_ab\<lparr>messages := [msg_hello, msg_photo], newMessage := [0xA0, 0x20],
     editingMessage := Some msg_photo\<rparr>"

text \<open>
  \<open>chat_ba\<close> is the chat screen of user 20 opened on user 10. \<open>msg_doc\<close> is a document
  without text that a third user, 30, sent to user 10.
\<close>

definition msg_doc :: Message where
  "msg_doc = \<lparr>id_msg = 4, sender_id = 30, recipient_id = 10, content = [], read = True,
     created_at = 150, attachment_url = Some ''https://cdn.example/plan.pdf'',
     attachment_type = Some Document,
     attachment_metadata = Some \<lparr>file_name = ascii ''plan.pdf'', file_size = 4096,
                                  mime_type = Some ''application/pdf''\<rparr>\<rparr>"

definition chat_ba :: ChatScreen where
  "chat_ba = chat_ab\<lparr>user := Some 20, id_chat := Some 10\<rparr>"

text \<open>
  \<open>msg_to_30\<close> is a message of user 10 to user 30, not read yet. \<open>photo_path\<close> and
  \<open>photo_payload\<close> are the path and the result of the upload of \<open>photo\<close> by user 10,
  \<open>server_photo\<close> the backend after it.
\<close>

definition msg_to_30 :: Message where
  "msg_to_30 = \<lparr>id_msg = 5, sender_id = 10, recipient_id = 30, content = ascii ''hey'', read = False,
     created_at = 120, attachment_url = None, attachment_type = None, attachment_metadata = None\<rparr>"

definition photo_path :: path where
  "photo_path = (10, 150, ascii ''my-photo.jpg'')"

definition photo_payload :: attachmentPayload where
  "photo_payload = (''https://cdn.example/photo.jpg'', Image,
     \<lparr>file_name = ascii ''my photo.jpg'', file_size = 2048, mime_type = Some ''image/jpeg''\<rparr>)"

definition server_photo :: server where
  "server_photo = server_ab\<lparr>chat_media := [photo_path]\<rparr>"

section \<open>Constraint lemmas\<close>

lemma content_check_imp_length_check:
  "messages_content_check m \<Longrightarrow> messages_content_length_check m"
  by (auto simp: messages_content_check_def messages_content_length_check_def)

lemma db_insert_rows:
  assumes "db_insert uid ps row s = Inr s'"
  shows "s' = s @ [row] \<and> row_checks row \<and> rls_insert uid row \<and> id_msg row \<notin> set (map id_msg s)"
  using assms by (auto simp: db_insert_def split: if_splits)

lemma db_update_rows:
  assumes "db_update uid flt upd s = Inr s'"
  shows "s' = map (\<lambda>m. if targets flt rls_update uid m then upd m else m) s"
    and "\<And>m. m \<in> set s \<Longrightarrow> targets flt rls_update uid m \<Longrightarrow> row_checks (upd m)"
  using assms by (auto simp: db_update_def list_ex_iff split: if_splits)

lemma db_delete_rows:
  assumes "db_delete uid flt s = Inr s'"
  shows "s' = filter (\<lambda>m. \<not> targets flt rls_delete uid m) s"
  using assms by (simp add: db_delete_def)

lemma store_reach_checks:
  "store_reach s \<Longrightarrow> m \<in> set s \<Longrightarrow> row_checks m"
proof (induction arbitrary: m rule: store_reach.induct)
  case reach_empty
  then show ?case by simp
next
  case (reach_insert s uid ps row s')
  then show ?case by (auto dest!: db_insert_rows)
next
  case (reach_update s uid flt upd s')
  from db_update_rows[OF reach_update.hyps(2)] reach_update.prems reach_update.IH
  show ?case by (auto split: if_splits)
next
  case (reach_delete s uid flt s')
  then show ?case by (auto dest!: db_delete_rows)
next
  case (reach_cascade s p)
  then show ?case by simp
qed


lemma store_reach_hello: "store_reach [msg_hello]"
  by (rule reach_insert[OF reach_empty, of 10 "[10, 20, 30]" msg_hello])
     (simp add: db_insert_def rls_insert_def row_checks_def messages_content_check_def
        messages_content_length_check_def msg_hello_def ascii_def)

lemma store_reach_hello_to_30: "store_reach [msg_hello, msg_to_30]"
  by (rule reach_insert[OF store_reach_hello, of 10 "[10, 20, 30]" msg_to_30])
     (simp add: db_insert_def rls_insert_def row_checks_def messages_content_check_def
        messages_content_length_check_def msg_hello_def msg_to_30_def ascii_def)

lemma store_reach_hello_photo: "store_reach [msg_hello, msg_photo]"
  by (rule reach_insert[OF store_reach_hello, of 10 "[10, 20, 30]" msg_photo])
     (simp add: db_insert_def rls_insert_def row_checks_def messages_content_check_def
        messages_content_length_check_def msg_hello_def msg_photo_def ascii_def)

lemma between_visible: "between u i m \<Longrightarrow> rls_select u m"
  by (auto simp: between_def rls_select_def)

lemma on_INSERT_irrelevant:
  "\<not> isRelevantMessage st newMsg \<Longrightarrow> on_INSERT newMsg (sv, st) = (sv, st)"
  by (simp add: on_INSERT_def)

lemma on_INSERT_from_counterpart:
  "isRelevantMessage st newMsg \<Longrightarrow> Some (sender_id newMsg) = id_chat st \<Longrightarrow>
     on_INSERT newMsg (sv, st) = markAsRead (sv, st\<lparr>messages := messages st @ [newMsg]\<rparr>)"
  by (simp add: on_INSERT_def)

lemma store_reach_distinct: "store_reach s \<Longrightarrow> distinct (map id_msg s)"
proof (induction rule: store_reach.induct)
  case reach_empty
  then show ?case by simp
next
  case (reach_insert s uid ps row s')
  then show ?case by (auto dest!: db_insert_rows)
next
  case (reach_update s uid flt upd s')
  then show ?case by (auto simp: db_update_def split: if_splits)
next
  case (reach_delete s uid flt s')
  then show ?case by (auto dest!: db_delete_rows simp: distinct_map_filter)
next
  case (reach_cascade s p)
  then show ?case by (simp add: distinct_map_filter)
qed

lemma row_checks_read [simp]: "row_checks (m\<lparr>read := b\<rparr>) = row_checks m"
  by (simp add: row_checks_def messages_content_check_def messages_content_length_check_def)

lemma rls_update_read [simp]: "rls_update u (m\<lparr>read := b\<rparr>) = rls_update u m"
  by (simp add: rls_update_def)

lemma rls_update_content [simp]: "rls_update u (m\<lparr>content := c\<rparr>) = rls_update u m"
  by (simp add: rls_update_def)

lemma row_checks_content: "c \<noteq> [] \<Longrightarrow> length c \<le> 1000 \<Longrightarrow> row_checks (m\<lparr>content := c\<rparr>)"
  by (cases c) (auto simp add: row_checks_def messages_content_check_def messages_content_length_check_def)

lemma markAsRead_targets:
  "targets (\<lambda>m. sender_id m = i \<and> recipient_id m = u \<and> read m = False) rls_update u m
     \<longleftrightarrow> sender_id m = i \<and> recipient_id m = u \<and> \<not> read m"
  by (auto simp: targets_def rls_update_def rls_select_def)

lemma db_update_ok:
  assumes "distinct (map id_msg s)"
    and "\<And>m. m \<in> set s \<Longrightarrow> targets flt rls_update uid m \<Longrightarrow>
           rls_update uid (upd m) \<and> row_checks (upd m) \<and> id_msg (upd m) = id_msg m"
  shows "db_update uid flt upd s = Inr (map (\<lambda>m. if targets flt rls_update uid m then upd m else m) s)"
proof -
  have e: "map id_msg (map (\<lambda>m. if targets flt rls_update uid m then upd m else m) s) = map id_msg s"
    using assms(2) by (simp add: map_eq_conv)
  have "distinct (map id_msg (map (\<lambda>m. if targets flt rls_update uid m then upd m else m) s))"
    unfolding e by (rule assms(1))
  moreover have "\<not> list_ex (\<lambda>m. targets flt rls_update uid m \<and> \<not> rls_update uid (upd m)) s"
    using assms(2) by (auto simp: list_ex_iff)
  moreover have "\<not> list_ex (\<lambda>m. targets flt rls_update uid m \<and> \<not> row_checks (upd m)) s"
    using assms(2) by (auto simp: list_ex_iff)
  ultimately show ?thesis unfolding db_update_def by simp
qed

lemma markAsRead_query_eq:
  assumes "store_reach s"
  shows "markAsRead_query u i s =
     Inr (map (\<lambda>m. if sender_id m = i \<and> recipient_id m = u \<and> \<not> read m then m\<lparr>read := True\<rparr> else m) s)"
proof -
  have d: "distinct (map id_msg s)" using assms by (rule store_reach_distinct)
  have c: "\<And>m. m \<in> set s \<Longrightarrow> row_checks m" using assms by (rule store_reach_checks)
  have "markAsRead_query u i s = Inr (map (\<lambda>m. if targets (\<lambda>m. sender_id m = i \<and> recipient_id m = u \<and> read m = False) rls_update u m then m\<lparr>read := True\<rparr> else m) s)"
    unfolding markAsRead_query_def
    by (rule db_update_ok[OF d]) (auto simp: c targets_def)
  then show ?thesis unfolding markAsRead_targets .
qed

lemma find_by_id_map:
  assumes "distinct (map id_msg s)" and "m \<in> set s" and "\<And>x. id_msg (f x) = id_msg x"
  shows "find (\<lambda>x. id_msg x = id_msg m) (map f s) = Some (f m)"
  using assms(1,2)
proof (induction s)
  case Nil
  then show ?case by simp
next
  case (Cons a s)
  then show ?case using assms(3) by (auto simp: image_iff)
qed

lemma same_id_same_row:
  "distinct (map id_msg s) \<Longrightarrow> m \<in> set s \<Longrightarrow> x \<in> set s \<Longrightarrow> id_msg x = id_msg m \<Longrightarrow> x = m"
  by (meson distinct_map inj_on_def)

lemma delete_query_eq:
  assumes "store_reach s" and "m \<in> set s"
  shows "delete_query u m s = Inr (if u = sender_id m then filter (\<lambda>x. id_msg x \<noteq> id_msg m) s else s)"
proof -
  have d: "distinct (map id_msg s)" using assms(1) by (rule store_reach_distinct)
  have "filter (\<lambda>x. \<not> targets (\<lambda>x. id_msg x = id_msg m \<and> sender_id x = u) rls_delete u x) s
        = (if u = sender_id m then filter (\<lambda>x. id_msg x \<noteq> id_msg m) s else s)"
  proof (cases "u = sender_id m")
    case True
    have "filter (\<lambda>x. \<not> targets (\<lambda>x. id_msg x = id_msg m \<and> sender_id x = u) rls_delete u x) s
          = filter (\<lambda>x. id_msg x \<noteq> id_msg m) s"
      using same_id_same_row[OF d assms(2)] True
      by (intro filter_cong) (auto simp: targets_def rls_delete_def rls_select_def)
    then show ?thesis using True by simp
  next
    case False
    have "filter (\<lambda>x. \<not> targets (\<lambda>x. id_msg x = id_msg m \<and> sender_id x = u) rls_delete u x) s = s"
      using same_id_same_row[OF d assms(2)] False
      by (auto simp: filter_id_conv targets_def)
    then show ?thesis using False by simp
  qed
  then show ?thesis by (simp add: delete_query_def db_delete_def)
qed

lemma edit_query_eq:
  assumes "store_reach s" and "m \<in> set s" and "c \<noteq> []" and "length c \<le> 1000"
  shows "edit_query u m c s =
           Inr (if u = sender_id m
                then map (\<lambda>x. if id_msg x = id_msg m then x\<lparr>content := c\<rparr> else x) s else s)"
proof -
  have d: "distinct (map id_msg s)" using assms(1) by (rule store_reach_distinct)
  let ?flt = "\<lambda>x. id_msg x = id_msg m \<and> sender_id x = u"
  have 1: "edit_query u m c s
        = Inr (map (\<lambda>x. if targets ?flt rls_update u x then x\<lparr>content := c\<rparr> else x) s)"
    unfolding edit_query_def
    by (rule db_update_ok[OF d]) (auto simp: row_checks_content assms(3,4) targets_def)
  have 2: "map (\<lambda>x. if targets ?flt rls_update u x then x\<lparr>content := c\<rparr> else x) s
        = (if u = sender_id m
           then map (\<lambda>x. if id_msg x = id_msg m then x\<lparr>content := c\<rparr> else x) s else s)"
  proof (cases "u = sender_id m")
    case True
    have "map (\<lambda>x. if targets ?flt rls_update u x then x\<lparr>content := c\<rparr> else x) s
            = map (\<lambda>x. if id_msg x = id_msg m then x\<lparr>content := c\<rparr> else x) s"
      using same_id_same_row[OF d assms(2)] True
      by (intro map_cong) (auto simp: targets_def rls_update_def rls_select_def)
    then show ?thesis using True by simp
  next
    case False
    have "map (\<lambda>x. if targets ?flt rls_update u x then x\<lparr>content := c\<rparr> else x) s = map (\<lambda>x. x) s"
      using same_id_same_row[OF d assms(2)] False
      by (intro map_cong) (auto simp: targets_def)
    then show ?thesis using False by simp
  qed
  show ?thesis unfolding 1 2 ..
qed

lemma read_already: "read m \<Longrightarrow> m\<lparr>read := True\<rparr> = m"
  by (cases m) simp

lemma markAsRead_row:
  assumes "store_reach s" and "m \<in> set s" and "sender_id m = i"
  shows "\<exists>s'. markAsRead_query u i s = Inr s'
           \<and> find (\<lambda>x. id_msg x = id_msg m) s' = Some (if u = recipient_id m then m\<lparr>read := True\<rparr> else m)"
proof -
  let ?f = "\<lambda>m. if sender_id m = i \<and> recipient_id m = u \<and> \<not> read m then m\<lparr>read := True\<rparr> else m"
  have d: "distinct (map id_msg s)" using assms(1) by (rule store_reach_distinct)
  have 1: "markAsRead_query u i s = Inr (map ?f s)" using assms(1) by (rule markAsRead_query_eq)
  have "find (\<lambda>x. id_msg x = id_msg m) (map ?f s) = Some (?f m)"
    by (rule find_by_id_map[OF d assms(2)]) simp
  moreover have "?f m = (if u = recipient_id m then m\<lparr>read := True\<rparr> else m)"
    using assms(3) by (auto simp: read_already)
  ultimately show ?thesis using 1 by simp
qed

lemma delete_by_other_on_screen:
  "deleteMessage msg_hello (server_ab, chat_ab\<lparr>user := Some 20, id_chat := Some 10, messages := [msg_hello]\<rparr>)
     = (server_ab, chat_ab\<lparr>user := Some 20, id_chat := Some 10\<rparr>)"
  by (simp add: deleteMessage_def delete_query_def db_delete_def targets_def rls_delete_def
      server_ab_def chat_ab_def msg_hello_def)

lemma uploadAttachment_keeps:
  assumes "uploadAttachment e pa (sv, st) = (r, sv1, st1)"
  shows "tbl sv1 = tbl sv \<and> messages st1 = messages st \<and> pendingAttachment st1 = pendingAttachment st
         \<and> newMessage st1 = newMessage st \<and> editingMessage st1 = editingMessage st
         \<and> sending st1 = sending st \<and> user st1 = user st \<and> id_chat st1 = id_chat st"
  using assms
  by (auto simp: uploadAttachment_def upload_failed_def Let_def split: option.splits if_splits)

lemma uploadAttachment_stored:
  assumes "uploadAttachment e pa (sv, st) = (Some payload, sv1, st1)"
  shows "\<exists>p\<in>set (chat_media sv1). getPublicUrl e p = Some (fst payload)"
  using assms
  by (auto simp: uploadAttachment_def upload_failed_def Let_def split: option.splits if_splits)

lemma uploadAttachment_performs:
  assumes "user st = Some u" and "fetch_bytes e = Some n" and "storage_up e"
    and "(u, date_now e, safeFileName (fileName pa)) \<notin> set (chat_media sv)"
    and "getPublicUrl e (u, date_now e, safeFileName (fileName pa)) = Some url"
  shows "uploadAttachment e pa (sv, st)
           = (Some (url, type_pa pa,
                    \<lparr>file_name = fileName pa,
                     file_size = (case size_pa pa of Some k \<Rightarrow> k | None \<Rightarrow> n),
                     mime_type = mimeType pa\<rparr>),
              sv\<lparr>chat_media := chat_media sv @ [(u, date_now e, safeFileName (fileName pa))]\<rparr>,
              st\<lparr>uploadingAttachment := False\<rparr>)"
  using assms by (simp add: uploadAttachment_def Let_def)

lemma insert_path_cases:
  assumes "insert_path e u i c payload (sv, st) = (sv', st')"
  shows "chat_media sv' = chat_media sv
         \<and> (tbl sv' = tbl sv \<or> tbl sv' = tbl sv @ [new_row e u i c payload])"
  using assms by (auto simp: insert_path_def split: sum.splits dest!: db_insert_rows)

lemma insert_path_ok:
  assumes "db_insert u (profile_ids sv) (new_row e u i c payload) (tbl sv) = Inr d"
  shows "insert_path e u i c payload (sv, st)
           = (sv\<lparr>tbl := tbl sv @ [new_row e u i c payload]\<rparr>,
              (resetComposer (st\<lparr>messages := messages st @ [new_row e u i c payload]\<rparr>))
              \<lparr>sending := False\<rparr>)"
  using assms db_insert_rows[OF assms] by (simp add: insert_path_def)

lemma sendMessage_pending:
  assumes "user st = Some u" and "id_chat st = Some i" and "\<not> sending st"
    and "editingMessage st = None" and "pendingAttachment st = Some pa"
    and "uploadAttachment e pa (sv, st\<lparr>sending := True\<rparr>) = (r, sv1, st1)"
  shows "sendMessage e (sv, st)
           = (case r of
                None \<Rightarrow> (sv1, st1\<lparr>sending := False\<rparr>)
              | Some payload \<Rightarrow> insert_path e u i (trim (newMessage st)) (Some payload) (sv1, st1))"
  using assms by (simp add: sendMessage_def Let_def split: option.splits)

lemma uploadAttachment_profiles:
  assumes "uploadAttachment e pa (sv, st) = (r, sv1, st1)"
  shows "profile_ids sv1 = profile_ids sv"
  using assms
  by (auto simp: uploadAttachment_def upload_failed_def Let_def split: option.splits if_splits)

lemma sendMessage_created:
  assumes "user st = Some u" and "id_chat st = Some i" and "\<not> sending st"
    and "editingMessage st = None" and "pendingAttachment st = Some pa"
    and "m \<in> set (tbl (fst (sendMessage e (sv, st))))"
    and "id_msg m \<notin> set (map id_msg (tbl sv))"
    and "attachment_url m = Some url"
  shows "fst (uploadAttachment e pa (sv, st\<lparr>sending := True\<rparr>)) \<noteq> None
         \<and> (\<exists>p\<in>set (chat_media (fst (sendMessage e (sv, st)))). getPublicUrl e p = Some url)"
proof -
  obtain r sv1 st1 where up: "uploadAttachment e pa (sv, st\<lparr>sending := True\<rparr>) = (r, sv1, st1)"
    by (metis prod_cases3)
  note k = uploadAttachment_keeps[OF up]
  note sm = sendMessage_pending[OF assms(1-5) up]
  from assms(6,7) have changed: "tbl (fst (sendMessage e (sv, st))) \<noteq> tbl sv" by auto
  show ?thesis
  proof (cases r)
    case None
    with sm k have "tbl (fst (sendMessage e (sv, st))) = tbl sv" by simp
    with changed show ?thesis by simp
  next
    case (Some payload)
    obtain sv' st' where s: "sendMessage e (sv, st) = (sv', st')"
      by (cases "sendMessage e (sv, st)")
    with sm Some have ins: "insert_path e u i (trim (newMessage st)) (Some payload) (sv1, st1) = (sv', st')"
      by simp
    from insert_path_cases[OF ins] k assms(6,7) s
    have "m = new_row e u i (trim (newMessage st)) (Some payload)" and cm: "chat_media sv' = chat_media sv1"
      by auto
    with assms(8) have "url = fst payload" by (simp add: new_row_def)
    with uploadAttachment_stored[OF up[unfolded Some]] cm up Some s show ?thesis by simp
  qed
qed

lemma upload_offline:
  "uploadAttachment env_offline photo (server_ab, chat_photo\<lparr>sending := True\<rparr>)
     = (None, server_ab, chat_photo\<lparr>sending := True, alerts := [''Upload failed'']\<rparr>)"
  by (simp add: uploadAttachment_def upload_failed_def Let_def
      env_offline_def chat_photo_def chat_ab_def server_ab_def photo_def)

lemma upload_online:
  "uploadAttachment env_online photo (server_ab, chat_photo\<lparr>sending := True\<rparr>)
     = (Some photo_payload, server_photo, chat_photo\<lparr>sending := True\<rparr>)"
  by (simp add: uploadAttachment_def upload_failed_def Let_def safeFileName_def is_space_def
      ascii_def photo_path_def photo_payload_def server_photo_def
      env_online_def env_offline_def chat_photo_def chat_ab_def server_ab_def photo_def)

lemma new_row_photo:
  "new_row env_online 10 20 (trim (newMessage chat_photo)) (Some photo_payload) = msg_photo"
  by (simp add: new_row_def trim_def is_space_def ascii_def photo_payload_def msg_photo_def
      env_online_def env_offline_def chat_photo_def chat_ab_def)

lemma insert_photo:
  "db_insert 10 (profile_ids server_ab) msg_photo (tbl server_ab) = Inr [msg_hello, msg_photo]"
  by (simp add: db_insert_def rls_insert_def row_checks_def messages_content_check_def
      messages_content_length_check_def server_ab_def msg_hello_def msg_photo_def ascii_def)

lemma edit_to_empty_at_store:
  "edit_query 10 msg_photo [] [msg_hello, msg_photo] = Inr [msg_hello, msg_photo\<lparr>content := []\<rparr>]"
  by (simp add: edit_query_def db_update_def targets_def rls_update_def rls_select_def
      row_checks_def messages_content_check_def messages_content_length_check_def
      msg_hello_def msg_photo_def)

section \<open>Conversation list lemmas\<close>

lemma map_of_set_if_absent:
  "map_of (set_if_absent a b cm) k
     = (case map_of cm k of None \<Rightarrow> (if k = a then Some b else None) | Some c \<Rightarrow> Some c)"
  by (induction cm) (auto simp: set_if_absent_def split: option.splits)

lemma map_of_bump_unread:
  "map_of (bump_unread other cm) k
     = map_option (\<lambda>c. if k = other then c\<lparr>unreadCount := unreadCount c + 1\<rparr> else c) (map_of cm k)"
  by (induction cm) (auto simp: bump_unread_def)

lemma keys_bump_unread: "map fst (bump_unread other cm) = map fst cm"
  by (induction cm) (auto simp: bump_unread_def)

lemma keys_set_if_absent:
  "map fst (set_if_absent a b cm) = (if map_of cm a = None then map fst cm @ [a] else map fst cm)"
  by (simp add: set_if_absent_def)

lemma set_bump_unread:
  "(k, c) \<in> set (bump_unread other cm)
     \<Longrightarrow> \<exists>c'. (k, c') \<in> set cm \<and> (c = c' \<or> c = c'\<lparr>unreadCount := unreadCount c' + 1\<rparr>)"
  by (induction cm) (auto simp: bump_unread_def split: if_splits)

lemma unread_of_bump:
  "unread_of (bump_unread other cm) k
     = (if k = other \<and> map_of cm k \<noteq> None then unread_of cm k + 1 else unread_of cm k)"
  by (cases "map_of cm k") (auto simp add: unread_of_def map_of_bump_unread)

lemma face_of_bump: "face_of (bump_unread other cm) k = face_of cm k"
  by (cases "map_of cm k") (simp_all add: face_of_def map_of_bump_unread)

lemma unread_of_set_if_absent:
  "unreadCount b = 0 \<Longrightarrow> unread_of (set_if_absent a b cm) k = unread_of cm k"
  by (simp add: unread_of_def map_of_set_if_absent split: option.splits)

lemma face_of_set_if_absent:
  "face_of (set_if_absent a b cm) k
     = (case face_of cm k of
          Some f \<Rightarrow> Some f
        | None \<Rightarrow> if a = k then Some (lastMessage b, lastMessageTime b) else None)"
  by (auto simp add: face_of_def map_of_set_if_absent split: option.splits)

lemma present_after_set_if_absent: "map_of (set_if_absent a b cm) a \<noteq> None"
  by (simp add: map_of_set_if_absent split: option.splits)

lemma hit_other: "sender_id msg = k \<Longrightarrow> recipient_id msg = u \<Longrightarrow> otherUserId_of u msg = k"
  by (auto simp: otherUserId_of_def)

lemma step_keys:
  "map fst (conversation_step u pn msg cm)
     = (if map_of cm (otherUserId_of u msg) = None then map fst cm @ [otherUserId_of u msg]
        else map fst cm)"
  by (simp add: conversation_step_def Let_def keys_bump_unread keys_set_if_absent)

lemma fold_keys_distinct:
  "distinct (map fst cm) \<Longrightarrow> distinct (map fst (fold (conversation_step u pn) msgs cm))"
proof (induction msgs arbitrary: cm)
  case Nil
  then show ?case by simp
next
  case (Cons msg msgs)
  have "distinct (map fst (conversation_step u pn msg cm))"
    using Cons.prems by (auto simp: step_keys map_of_eq_None_iff)
  then show ?case using Cons.IH by simp
qed

lemma fold_keys_set:
  "set (map fst (fold (conversation_step u pn) msgs cm))
     = set (map fst cm) \<union> otherUserId_of u ` set msgs"
proof (induction msgs arbitrary: cm)
  case Nil
  then show ?case by simp
next
  case (Cons msg msgs)
  have "set (map fst (conversation_step u pn msg cm)) = insert (otherUserId_of u msg) (set (map fst cm))"
    by (auto simp: step_keys map_of_eq_None_iff)
  then show ?case using Cons.IH[of "conversation_step u pn msg cm"] by auto
qed

lemma step_unread:
  "unread_of (conversation_step u pn msg cm) k
     = unread_of cm k + (if sender_id msg = k \<and> recipient_id msg = u \<and> \<not> read msg then 1 else 0)"
proof -
  let ?o = "otherUserId_of u msg"
  let ?cm1 = "set_if_absent ?o (new_conversation pn ?o msg) cm"
  have m1: "unread_of ?cm1 k = unread_of cm k"
    by (rule unread_of_set_if_absent) (simp add: new_conversation_def)
  have in1: "map_of ?cm1 ?o \<noteq> None"
    by (rule present_after_set_if_absent)
  show ?thesis
  proof (cases "sender_id msg = ?o \<and> recipient_id msg = u \<and> \<not> read msg")
    case True
    have "conversation_step u pn msg cm
        = (if sender_id msg = ?o \<and> recipient_id msg = u \<and> \<not> read msg then bump_unread ?o ?cm1 else ?cm1)"
      by (simp add: conversation_step_def Let_def)
    with True have "conversation_step u pn msg cm = bump_unread ?o ?cm1"
      by simp
    then have "unread_of (conversation_step u pn msg cm) k
        = (if k = ?o \<and> map_of ?cm1 k \<noteq> None then unread_of ?cm1 k + 1 else unread_of ?cm1 k)"
      by (simp only: unread_of_bump)
    also have "\<dots> = unread_of cm k + (if k = ?o then 1 else 0)"
      using in1 m1 by (cases "k = ?o") simp_all
    also have "(k = ?o) = (sender_id msg = k \<and> recipient_id msg = u \<and> \<not> read msg)"
      using True hit_other[of msg k u] by auto
    finally show ?thesis .
  next
    case False
    have "conversation_step u pn msg cm
        = (if sender_id msg = ?o \<and> recipient_id msg = u \<and> \<not> read msg then bump_unread ?o ?cm1 else ?cm1)"
      by (simp add: conversation_step_def Let_def)
    with False have "conversation_step u pn msg cm = ?cm1"
      by (simp only: if_False)
    moreover have "\<not> (sender_id msg = k \<and> recipient_id msg = u \<and> \<not> read msg)"
      using False hit_other[of msg k u] by auto
    ultimately show ?thesis using m1 by simp
  qed
qed

lemma fold_unread:
  "unread_of (fold (conversation_step u pn) msgs cm) k
     = unread_of cm k + length (filter (\<lambda>m. sender_id m = k \<and> recipient_id m = u \<and> \<not> read m) msgs)"
  by (induction msgs arbitrary: cm) (simp_all add: step_unread)

lemma step_own_key:
  assumes "\<And>k c. (k, c) \<in> set cm \<Longrightarrow> otherUserId c = k"
    and "(k, c) \<in> set (conversation_step u pn msg cm)"
  shows "otherUserId c = k"
proof -
  let ?o = "otherUserId_of u msg"
  let ?cm1 = "set_if_absent ?o (new_conversation pn ?o msg) cm"
  have 1: "\<And>k c. (k, c) \<in> set ?cm1 \<Longrightarrow> otherUserId c = k"
    using assms(1) by (auto simp: set_if_absent_def new_conversation_def split: if_splits)
  show ?thesis
  proof (cases "sender_id msg = ?o \<and> recipient_id msg = u \<and> \<not> read msg")
    case True
    have "conversation_step u pn msg cm
        = (if sender_id msg = ?o \<and> recipient_id msg = u \<and> \<not> read msg then bump_unread ?o ?cm1 else ?cm1)"
      by (simp add: conversation_step_def Let_def)
    with True have "conversation_step u pn msg cm = bump_unread ?o ?cm1"
      by simp
    with assms(2) set_bump_unread[of k c ?o ?cm1]
    obtain c' where "(k, c') \<in> set ?cm1" and "c = c' \<or> c = c'\<lparr>unreadCount := unreadCount c' + 1\<rparr>"
      by auto
    with 1[of k c'] show ?thesis by auto
  next
    case False
    have "conversation_step u pn msg cm
        = (if sender_id msg = ?o \<and> recipient_id msg = u \<and> \<not> read msg then bump_unread ?o ?cm1 else ?cm1)"
      by (simp add: conversation_step_def Let_def)
    with False have "conversation_step u pn msg cm = ?cm1"
      by (simp only: if_False)
    with assms(2) 1 show ?thesis by simp
  qed
qed

lemma fold_own_key:
  assumes "\<And>k c. (k, c) \<in> set cm \<Longrightarrow> otherUserId c = k"
    and "(k, c) \<in> set (fold (conversation_step u pn) msgs cm)"
  shows "otherUserId c = k"
  using assms
proof (induction msgs arbitrary: cm)
  case Nil
  then show ?case by simp
next
  case (Cons msg msgs)
  show ?case
  proof (rule Cons.IH[of "conversation_step u pn msg cm"])
    show "\<And>k c. (k, c) \<in> set (conversation_step u pn msg cm) \<Longrightarrow> otherUserId c = k"
      using step_own_key Cons.prems(1) by blast
    show "(k, c) \<in> set (fold (conversation_step u pn) msgs (conversation_step u pn msg cm))"
      using Cons.prems(2) by simp
  qed
qed

lemma step_face:
  "face_of (conversation_step u pn msg cm) k
     = (case face_of cm k of
          Some f \<Rightarrow> Some f
        | None \<Rightarrow> if otherUserId_of u msg = k then Some (getMessagePreview msg, created_at msg) else None)"
  by (simp add: conversation_step_def Let_def face_of_bump face_of_set_if_absent new_conversation_def
      split: option.splits)

lemma fold_face:
  "face_of (fold (conversation_step u pn) msgs cm) k
     = (case face_of cm k of
          Some f \<Rightarrow> Some f
        | None \<Rightarrow> map_option (\<lambda>m. (getMessagePreview m, created_at m))
                    (find (\<lambda>m. otherUserId_of u m = k) msgs))"
  by (induction msgs arbitrary: cm) (auto simp: step_face split: option.splits)

lemma times_bump_unread:
  "map (lastMessageTime \<circ> snd) (bump_unread other cm) = map (lastMessageTime \<circ> snd) cm"
  by (induction cm) (auto simp: bump_unread_def)

lemma step_times:
  "map (lastMessageTime \<circ> snd) (conversation_step u pn msg cm)
     = (if map_of cm (otherUserId_of u msg) = None
        then map (lastMessageTime \<circ> snd) cm @ [created_at msg]
        else map (lastMessageTime \<circ> snd) cm)"
  by (simp add: conversation_step_def Let_def times_bump_unread set_if_absent_def new_conversation_def)

lemma fold_times_sorted:
  assumes "sorted_wrt (\<ge>) (map created_at msgs)"
    and "sorted_wrt (\<ge>) (map (lastMessageTime \<circ> snd) cm)"
    and "\<And>t m. t \<in> set (map (lastMessageTime \<circ> snd) cm) \<Longrightarrow> m \<in> set msgs \<Longrightarrow> created_at m \<le> t"
  shows "sorted_wrt (\<ge>) (map (lastMessageTime \<circ> snd) (fold (conversation_step u pn) msgs cm))"
  using assms
proof (induction msgs arbitrary: cm)
  case Nil
  then show ?case by simp
next
  case (Cons msg msgs)
  let ?cm' = "conversation_step u pn msg cm"
  have later: "\<And>m. m \<in> set msgs \<Longrightarrow> created_at m \<le> created_at msg"
    using Cons.prems(1) by auto
  have s1: "sorted_wrt (\<ge>) (map created_at msgs)"
    using Cons.prems(1) by simp
  have s2: "sorted_wrt (\<ge>) (map (lastMessageTime \<circ> snd) ?cm')"
    unfolding step_times using Cons.prems(2,3)
    by (auto simp: sorted_wrt_append comp_def)
  have s3: "\<And>t m. t \<in> set (map (lastMessageTime \<circ> snd) ?cm') \<Longrightarrow> m \<in> set msgs \<Longrightarrow> created_at m \<le> t"
    unfolding step_times using Cons.prems(3) later
    by (auto simp: comp_def split: if_splits)
  show ?case using Cons.IH[OF s1 s2 s3] by simp
qed

lemma find_first_is_latest:
  assumes "sorted_wrt (\<ge>) (map created_at msgs)" and "find Q msgs = Some m"
  shows "m \<in> set msgs \<and> Q m \<and> (\<forall>m'\<in>set msgs. Q m' \<longrightarrow> created_at m' \<le> created_at m)"
  using assms by (induction msgs) (auto split: if_splits)

lemma unread_of_Nil: "unread_of [] k = 0"
  by (simp add: unread_of_def)

lemma face_of_Nil: "face_of [] k = None"
  by (simp add: face_of_def)

lemma entry_unread:
  assumes "(k, c) \<in> set (fold (conversation_step u pn) msgs [])"
  shows "unreadCount c
           = length (filter (\<lambda>m. sender_id m = k \<and> recipient_id m = u \<and> \<not> read m) msgs)"
proof -
  have "distinct (map fst (fold (conversation_step u pn) msgs []))"
    by (rule fold_keys_distinct) simp
  with assms have "map_of (fold (conversation_step u pn) msgs []) k = Some c"
    by simp
  then have "unread_of (fold (conversation_step u pn) msgs []) k = unreadCount c"
    by (simp add: unread_of_def)
  with fold_unread[of u pn msgs "[]" k] show ?thesis by (simp add: unread_of_Nil)
qed

lemma entry_face:
  assumes "(k, c) \<in> set (fold (conversation_step u pn) msgs [])"
  shows "\<exists>m. find (\<lambda>m. otherUserId_of u m = k) msgs = Some m
            \<and> lastMessage c = getMessagePreview m \<and> lastMessageTime c = created_at m"
proof -
  have "distinct (map fst (fold (conversation_step u pn) msgs []))"
    by (rule fold_keys_distinct) simp
  with assms have "map_of (fold (conversation_step u pn) msgs []) k = Some c"
    by simp
  then have "face_of (fold (conversation_step u pn) msgs []) k = Some (lastMessage c, lastMessageTime c)"
    by (simp add: face_of_def)
  with fold_face[of u pn msgs "[]" k]
  have "map_option (\<lambda>m. (getMessagePreview m, created_at m)) (find (\<lambda>m. otherUserId_of u m = k) msgs)
          = Some (lastMessage c, lastMessageTime c)"
    by (simp add: face_of_Nil)
  then show ?thesis by (cases "find (\<lambda>m. otherUserId_of u m = k) msgs") auto
qed

lemma entry_key:
  assumes "(k, c) \<in> set (fold (conversation_step u pn) msgs [])"
  shows "otherUserId c = k"
  by (rule fold_own_key[OF _ assms]) simp

lemma build_keys:
  "map otherUserId (build_conversations u pn msgs) = map fst (fold (conversation_step u pn) msgs [])"
  unfolding build_conversations_def
  by (auto simp: map_eq_conv dest: entry_key)

lemma build_entry:
  "c \<in> set (build_conversations u pn msgs)
     \<Longrightarrow> (otherUserId c, c) \<in> set (fold (conversation_step u pn) msgs [])"
  unfolding build_conversations_def using entry_key by fastforce

lemma fetchConversations_eq:
  "\<exists>pn. fetchConversations (Some u) sp ip s prev = build_conversations u pn (viewer_messages u s)"
  by (auto simp: fetchConversations_def Let_def viewer_messages_def)

lemma viewer_messages_set:
  "set (viewer_messages u s) = {m \<in> set s. sender_id m = u \<or> recipient_id m = u}"
  by (auto simp: viewer_messages_def order_desc_def db_select_def rls_select_def)

lemma viewer_messages_mset:
  "mset (viewer_messages u s) = filter_mset (\<lambda>m. sender_id m = u \<or> recipient_id m = u) (mset s)"
proof -
  have "(\<lambda>m. (sender_id m = u \<or> recipient_id m = u) \<and> rls_select u m)
          = (\<lambda>m. sender_id m = u \<or> recipient_id m = u)"
    by (auto simp: rls_select_def)
  then show ?thesis
    by (simp add: viewer_messages_def order_desc_def db_select_def)
qed

lemma viewer_messages_sorted: "sorted_wrt (\<ge>) (map created_at (viewer_messages u s))"
proof -
  have "sorted (map created_at (sort_key created_at (db_select u (\<lambda>m. sender_id m = u \<or> recipient_id m = u) s)))"
    by simp
  then show ?thesis
    unfolding viewer_messages_def order_desc_def rev_map[symmetric] sorted_wrt_rev
    by (simp add: sorted_wrt_rev rev_map)
qed

lemma count_in_selection:
  assumes "mset xs = filter_mset P (mset s)" and "\<And>m. Q m \<Longrightarrow> P m"
  shows "length (filter Q xs) = length (filter Q s)"
proof -
  have "length (filter Q xs) = size (filter_mset Q (mset xs))"
    by (metis mset_filter size_mset)
  also have "\<dots> = size (filter_mset Q (filter_mset P (mset s)))"
    by (simp add: assms(1))
  also have "filter_mset Q (filter_mset P (mset s)) = filter_mset Q (mset s)"
    using assms(2) by (auto simp: filter_filter_mset intro: filter_mset_cong)
  also have "size (filter_mset Q (mset s)) = length (filter Q s)"
    by (metis mset_filter size_mset)
  finally show ?thesis .
qed

lemma between_other:
  "between u k m \<longleftrightarrow> (sender_id m = u \<or> recipient_id m = u) \<and> otherUserId_of u m = k"
  by (auto simp: between_def otherUserId_of_def)

lemma viewer_messages_newest_first: "newest_first u s (viewer_messages u s)"
  by (simp add: newest_first_def viewer_messages_mset viewer_messages_sorted)

lemma newest_first_set:
  assumes "newest_first u s msgs"
  shows "set msgs = {m \<in> set s. sender_id m = u \<or> recipient_id m = u}"
proof -
  have "set_mset (mset msgs) = set_mset (filter_mset (\<lambda>m. sender_id m = u \<or> recipient_id m = u) (mset s))"
    using assms by (simp add: newest_first_def)
  then show ?thesis by simp
qed

text \<open>
  The conversation list built from any list that is newest first, whatever its order
  among rows of equal \<open>created_at\<close>.
\<close>

lemma build_unread:
  assumes "newest_first u s msgs" and "c \<in> set (build_conversations u pn msgs)"
  shows "unreadCount c
           = length (filter (\<lambda>m. sender_id m = otherUserId c \<and> recipient_id m = u \<and> \<not> read m) s)"
proof -
  have sel: "mset msgs = filter_mset (\<lambda>m. sender_id m = u \<or> recipient_id m = u) (mset s)"
    using assms(1) by (simp add: newest_first_def)
  from assms(2) have "(otherUserId c, c) \<in> set (fold (conversation_step u pn) msgs [])"
    by (rule build_entry)
  then have "unreadCount c
      = length (filter (\<lambda>m. sender_id m = otherUserId c \<and> recipient_id m = u \<and> \<not> read m) msgs)"
    by (rule entry_unread)
  also have "\<dots> = length (filter (\<lambda>m. sender_id m = otherUserId c \<and> recipient_id m = u \<and> \<not> read m) s)"
    by (rule count_in_selection[OF sel]) simp
  finally show ?thesis .
qed

lemma build_keys_set:
  assumes "newest_first u s msgs"
  shows "set (map otherUserId (build_conversations u pn msgs)) = {k. \<exists>m\<in>set s. between u k m}"
proof -
  have "set (map otherUserId (build_conversations u pn msgs)) = otherUserId_of u ` set msgs"
    unfolding build_keys fold_keys_set by simp
  also have "\<dots> = {k. \<exists>m\<in>set s. between u k m}"
    unfolding newest_first_set[OF assms] by (auto simp: between_other)
  finally show ?thesis .
qed

lemma build_latest:
  assumes "newest_first u s msgs" and "c \<in> set (build_conversations u pn msgs)"
  shows "\<exists>m\<in>set s. between u (otherUserId c) m
            \<and> lastMessage c = getMessagePreview m \<and> lastMessageTime c = created_at m
            \<and> (\<forall>m'\<in>set s. between u (otherUserId c) m' \<longrightarrow> created_at m' \<le> created_at m)"
proof -
  let ?k = "otherUserId c"
  have srt: "sorted_wrt (\<ge>) (map created_at msgs)"
    using assms(1) by (simp add: newest_first_def)
  note st = newest_first_set[OF assms(1)]
  from assms(2) have "(?k, c) \<in> set (fold (conversation_step u pn) msgs [])"
    by (rule build_entry)
  then obtain m where f: "find (\<lambda>m. otherUserId_of u m = ?k) msgs = Some m"
    and p: "lastMessage c = getMessagePreview m" and t: "lastMessageTime c = created_at m"
    using entry_face by blast
  from find_first_is_latest[OF srt f]
  have 1: "m \<in> set msgs" and 2: "otherUserId_of u m = ?k"
    and 3: "\<And>m'. m' \<in> set msgs \<Longrightarrow> otherUserId_of u m' = ?k \<Longrightarrow> created_at m' \<le> created_at m"
    by auto
  from 1 2 have "m \<in> set s" and "between u ?k m"
    by (auto simp: st between_other)
  moreover have "\<forall>m'\<in>set s. between u ?k m' \<longrightarrow> created_at m' \<le> created_at m"
    using 3 by (auto simp: st between_other)
  ultimately show ?thesis using p t by blast
qed

lemma build_distinct: "distinct (map otherUserId (build_conversations u pn msgs))"
  unfolding build_keys by (rule fold_keys_distinct) simp

lemma build_sorted:
  assumes "newest_first u s msgs"
  shows "sorted_wrt (\<ge>) (map lastMessageTime (build_conversations u pn msgs))"
proof -
  have srt: "sorted_wrt (\<ge>) (map created_at msgs)"
    using assms by (simp add: newest_first_def)
  have "sorted_wrt (\<ge>) (map (lastMessageTime \<circ> snd) (fold (conversation_step u pn) msgs []))"
    by (rule fold_times_sorted[OF srt]) simp_all
  then show ?thesis unfolding build_conversations_def by simp
qed

text \<open>The same for the list \<open>fetchConversations\<close> fetches.\<close>

lemma conversation_unread:
  assumes "c \<in> set (fetchConversations (Some u) sp ip s prev)"
  shows "unreadCount c
           = length (filter (\<lambda>m. sender_id m = otherUserId c \<and> recipient_id m = u \<and> \<not> read m) s)"
proof -
  obtain pn where e: "fetchConversations (Some u) sp ip s prev = build_conversations u pn (viewer_messages u s)"
    using fetchConversations_eq by blast
  show ?thesis using assms unfolding e by (rule build_unread[OF viewer_messages_newest_first])
qed

lemma conversation_keys:
  "set (map otherUserId (fetchConversations (Some u) sp ip s prev)) = {k. \<exists>m\<in>set s. between u k m}"
proof -
  obtain pn where e: "fetchConversations (Some u) sp ip s prev = build_conversations u pn (viewer_messages u s)"
    using fetchConversations_eq by blast
  show ?thesis unfolding e by (rule build_keys_set[OF viewer_messages_newest_first])
qed

lemma no_conversation_no_unread:
  assumes "other \<notin> otherUserId ` set (fetchConversations (Some u) sp ip s prev)"
  shows "filter (\<lambda>m. sender_id m = other \<and> recipient_id m = u \<and> \<not> read m) s = []"
proof -
  have "other \<notin> {k. \<exists>m\<in>set s. between u k m}"
    using assms conversation_keys[of u sp ip s prev] by simp
  then show ?thesis by (auto simp: filter_empty_conv between_def)
qed

lemma markAsRead_tbl:
  assumes "store_reach (tbl sv)" and "user st = Some u" and "id_chat st = Some k"
  shows "tbl (fst (markAsRead (sv, st)))
           = map (\<lambda>m. if sender_id m = k \<and> recipient_id m = u \<and> \<not> read m then m\<lparr>read := True\<rparr> else m) (tbl sv)"
  using assms(2,3) markAsRead_query_eq[OF assms(1), of u k]
  by (simp add: markAsRead_def)

lemma markAsRead_leaves_none:
  assumes "store_reach (tbl sv)" and "user st = Some u" and "id_chat st = Some k"
  shows "filter (\<lambda>m. sender_id m = k \<and> recipient_id m = u \<and> \<not> read m) (tbl (fst (markAsRead (sv, st)))) = []"
proof -
  let ?f = "\<lambda>m. if sender_id m = k \<and> recipient_id m = u \<and> \<not> read m then m\<lparr>read := True\<rparr> else m"
  have "\<And>m. \<not> (sender_id (?f m) = k \<and> recipient_id (?f m) = u \<and> \<not> read (?f m))"
    by simp
  then have "filter (\<lambda>m. sender_id m = k \<and> recipient_id m = u \<and> \<not> read m) (map ?f (tbl sv)) = []"
    unfolding filter_empty_conv by (metis (no_types, lifting) imageE list.set_map)
  then show ?thesis by (simp only: markAsRead_tbl[OF assms])
qed

lemma conversation_latest:
  assumes "c \<in> set (fetchConversations (Some u) sp ip s prev)"
  shows "\<exists>m\<in>set s. between u (otherUserId c) m
            \<and> lastMessage c = getMessagePreview m \<and> lastMessageTime c = created_at m
            \<and> (\<forall>m'\<in>set s. between u (otherUserId c) m' \<longrightarrow> created_at m' \<le> created_at m)"
proof -
  obtain pn where e: "fetchConversations (Some u) sp ip s prev = build_conversations u pn (viewer_messages u s)"
    using fetchConversations_eq by blast
  show ?thesis using assms unfolding e by (rule build_latest[OF viewer_messages_newest_first])
qed

lemma conversation_distinct:
  "distinct (map otherUserId (fetchConversations (Some u) sp ip s prev))"
proof -
  obtain pn where e: "fetchConversations (Some u) sp ip s prev = build_conversations u pn (viewer_messages u s)"
    using fetchConversations_eq by blast
  show ?thesis unfolding e by (rule build_distinct)
qed

lemma conversation_sorted:
  "sorted_wrt (\<ge>) (map lastMessageTime (fetchConversations (Some u) sp ip s prev))"
proof -
  obtain pn where e: "fetchConversations (Some u) sp ip s prev = build_conversations u pn (viewer_messages u s)"
    using fetchConversations_eq by blast
  show ?thesis unfolding e by (rule build_sorted[OF viewer_messages_newest_first])
qed

lemma conversations_of_20:
  "fetchConversations (Some 20) [] [(10, ''Ann'')] [msg_hello] []
     = [\<lparr>id_conv = 10, otherUserId = 10, otherUserName = ''Ann'', lastMessage = ascii ''hello'',
         lastMessageTime = 100, unreadCount = 1\<rparr>]"
  by (simp add: fetchConversations_def Let_def viewer_messages_def order_desc_def db_select_def rls_select_def
      build_conversations_def conversation_step_def set_if_absent_def bump_unread_def
      new_conversation_def otherUserId_of_def profileNames_def getMessagePreview_def
      trim_def is_space_def msg_hello_def ascii_def)

lemma conversations_of_10:
  "map (\<lambda>c. (otherUserId c, lastMessageTime c, unreadCount c))
     (fetchConversations (Some 10) [] [] [msg_hello, msg_reply, msg_doc, msg_photo] [])
     = [(20, 200, 1), (30, 150, 0)]"
  by (simp add: fetchConversations_def Let_def viewer_messages_def order_desc_def db_select_def rls_select_def
      build_conversations_def conversation_step_def set_if_absent_def bump_unread_def
      new_conversation_def otherUserId_of_def profileNames_def getMessagePreview_def
      trim_def is_space_def msg_hello_def msg_reply_def msg_photo_def msg_doc_def ascii_def)

lemma preview_of_document:
  "getMessagePreview msg_doc = [0xF0, 0x178, 0x201C, 0x201E] @ ascii '' Document''"
  by (simp add: getMessagePreview_def msg_doc_def)

section \<open>Reconciliation lemmas\<close>

text \<open>
  A resync overwrites the cache whatever it held; an update or a delete event that
  arrives after a resync which already saw its effect changes nothing.
\<close>

lemma listBetween_subset: "set (listBetween u i s) \<subseteq> set s"
  by (auto simp: listBetween_def order_asc_def db_select_def)

lemma fetchMessages_replaces:
  "user st = Some u \<Longrightarrow> id_chat st = Some i \<Longrightarrow>
     fetchMessages (sv, st) = (sv, st\<lparr>messages := listBetween u i (tbl sv)\<rparr>)"
  by (simp add: fetchMessages_def)

lemma update_event_after_resync:
  assumes "distinct (map id_msg (tbl sv))" and "m \<in> set (tbl sv)"
  shows "on_UPDATE m (fetchMessages (sv, st)) = fetchMessages (sv, st)"
proof (cases "user st")
  case None
  then show ?thesis by (simp add: fetchMessages_def on_UPDATE_def isRelevantMessage_def)
next
  case (Some u)
  show ?thesis
  proof (cases "id_chat st")
    case None
    then show ?thesis using Some by (simp add: fetchMessages_def on_UPDATE_def isRelevantMessage_def)
  next
    case (Some i)
    have "\<And>x. x \<in> set (listBetween u i (tbl sv)) \<Longrightarrow> (if id_msg x = id_msg m then m else x) = x"
      using same_id_same_row[OF assms] listBetween_subset[of u i "tbl sv"] by auto
    then have "map (\<lambda>msg. if id_msg msg = id_msg m then m else msg) (listBetween u i (tbl sv))
                 = listBetween u i (tbl sv)"
      by (simp add: map_idI)
    then show ?thesis using Some \<open>user st = Some u\<close>
      by (simp add: fetchMessages_def on_UPDATE_def)
  qed
qed

lemma delete_event_after_resync:
  assumes "id_msg m \<notin> set (map id_msg (tbl sv))"
  shows "on_DELETE (Some m) (fetchMessages (sv, st)) = fetchMessages (sv, st)"
proof (cases "user st")
  case None
  then show ?thesis by (simp add: fetchMessages_def on_DELETE_def isRelevantMessage_def)
next
  case (Some u)
  show ?thesis
  proof (cases "id_chat st")
    case None
    then show ?thesis using Some by (simp add: fetchMessages_def on_DELETE_def isRelevantMessage_def)
  next
    case (Some i)
    have "\<And>x. x \<in> set (tbl sv) \<Longrightarrow> id_msg x \<noteq> id_msg m"
      using assms by (metis imageI list.set_map)
    then have "\<And>x. x \<in> set (listBetween u i (tbl sv)) \<Longrightarrow> id_msg x \<noteq> id_msg m"
      using listBetween_subset[of u i "tbl sv"] by blast
    then have "filter (\<lambda>msg. id_msg msg \<noteq> id_msg m) (listBetween u i (tbl sv))
                 = listBetween u i (tbl sv)"
      by (simp add: filter_id_conv)
    then show ?thesis using Some \<open>user st = Some u\<close>
      by (simp add: fetchMessages_def on_DELETE_def)
  qed
qed

lemma resync_overwrites:
  "user st = Some u \<Longrightarrow> id_chat st = Some i \<Longrightarrow>
     messages (snd (fetchMessages (sv, st\<lparr>messages := xs\<rparr>))) = listBetween u i (tbl sv)"
  by (simp add: fetchMessages_def)

section \<open>Claims\<close>

text \<open>
  C1. Every row of a table reached by inserts, updates and deletes (in particular by
  message creation and by every later content edit) has a content of 1 to 1000
  characters, or an attachment url and a content of at most 1000 characters; no row has
  an empty content together with a null attachment url.
\<close>

theorem content_attachment_invariant:
  assumes "store_reach s" and "m \<in> set s"
  shows "((1 \<le> length (content m) \<and> length (content m) \<le> 1000)
          \<or> (attachment_url m \<noteq> None \<and> length (content m) \<le> 1000))
         \<and> \<not> (content m = [] \<and> attachment_url m = None)"
  using store_reach_checks[OF assms]
  by (auto simp: row_checks_def messages_content_check_def)

theorem content_attachment_invariant_witness:
  "store_reach [msg_hello] \<and> msg_hello \<in> set [msg_hello]
   \<and> ((1 \<le> length (content msg_hello) \<and> length (content msg_hello) \<le> 1000)
        \<or> (attachment_url msg_hello \<noteq> None \<and> length (content msg_hello) \<le> 1000))
   \<and> \<not> (content msg_hello = [] \<and> attachment_url msg_hello = None)"
  using store_reach_hello content_attachment_invariant[OF store_reach_hello, of msg_hello]
  by simp

text \<open>
  C4. The insert handler appends a relevant message without looking for its id in the
  cache. The chat screen of user 10 already shows \<open>msg_hello\<close> (appended by
  \<open>sendMessage\<close> when the insert returned); the insert event of the same row then
  appends it a second time.
\<close>

theorem insert_event_appends_present_id:
  "messages (snd (on_INSERT msg_hello (server_ab, chat_ab\<lparr>messages := [msg_hello]\<rparr>)))
     = [msg_hello, msg_hello]"
  by (simp add: on_INSERT_def isRelevantMessage_def chat_ab_def msg_hello_def)

text \<open>
  C5. A poll resync followed by the insert event of a row the resync already fetched:
  the resync alone leaves the cache \<open>[msg_hello]\<close>, the event after it leaves the row
  twice.
\<close>

theorem resync_then_insert_event_duplicates:
  "messages (snd (fetchMessages (server_ab, chat_ab))) = [msg_hello]
   \<and> messages (snd (on_INSERT msg_hello (fetchMessages (server_ab, chat_ab))))
       = [msg_hello, msg_hello]"
  by (simp add: on_INSERT_def fetchMessages_def isRelevantMessage_def listBetween_def
      order_asc_def db_select_def between_def rls_select_def chat_ab_def server_ab_def msg_hello_def)

text \<open>
  C6, as the claim states it, fails: with two rows of one \<open>created_at\<close> stored in the
  order id 2, id 1, the fetch returns them in that order, not by id ascending.
\<close>

theorem listBetween_tie_counterexample:
  "\<not> sorted_wrt spec_time_then_id_le (listBetween 10 20 [msg_hello, msg_reply])"
  by (simp add: listBetween_def order_asc_def db_select_def between_def rls_select_def
      spec_time_then_id_le_def msg_hello_def msg_reply_def)

text \<open>
  C6, amended. For any two users and any table, the fetch of the chat screen returns
  exactly the rows whose sender and recipient are the two users, in either direction,
  each as often as it is stored, in non-decreasing order of \<open>created_at\<close>. The order
  among rows of equal \<open>created_at\<close> is not fixed by the ids.
\<close>

theorem listBetween_members_sorted:
  "mset (listBetween a b s) = filter_mset (between a b) (mset s)
   \<and> sorted (map created_at (listBetween a b s))"
proof -
  have "(\<lambda>m. between a b m \<and> rls_select a m) = between a b"
    using between_visible by blast
  then show ?thesis
    by (simp add: listBetween_def order_asc_def db_select_def)
qed

text \<open>
  C2, as the claim states it, fails: a delete by a user who is not the sender matches no
  row, and the statement returns without an error, as it does for the sender. (On the
  screen \<open>deleteMessage\<close> then takes its success path, see \<open>delete_by_other_on_screen\<close>.)
\<close>

theorem delete_by_other_counterexample:
  "\<not> (\<not> isl (delete_query 20 msg_hello [msg_hello]) \<longleftrightarrow> 20 = sender_id msg_hello)"
  by (simp add: delete_query_def db_delete_def msg_hello_def)

text \<open>
  C2, amended. For a stored message \<open>m\<close> and a requester \<open>u\<close>, none of the three statements
  of the chat screen returns an error, and on the table they do this. The delete removes
  the row of \<open>m\<close> when \<open>u\<close> is its sender and nothing otherwise. The edit, with a content of
  1 to 1000 characters, rewrites the content of the row of \<open>m\<close> when \<open>u\<close> is its sender and
  nothing otherwise. The mark-read of the conversation with the sender of \<open>m\<close> sets the
  read flag of exactly the unread rows which that sender sent to \<open>u\<close>; so the row of \<open>m\<close>
  gets its flag set when \<open>u\<close> is its recipient and stays as it is otherwise.
\<close>

theorem owner_only_effects:
  assumes "store_reach s" and "m \<in> set s" and "c \<noteq> []" and "length c \<le> 1000"
  shows "delete_query u m s
           = Inr (if u = sender_id m then filter (\<lambda>x. id_msg x \<noteq> id_msg m) s else s)
       \<and> edit_query u m c s
           = Inr (if u = sender_id m
                  then map (\<lambda>x. if id_msg x = id_msg m then x\<lparr>content := c\<rparr> else x) s else s)
       \<and> (\<exists>s'. markAsRead_query u (sender_id m) s = Inr s'
              \<and> s' = map (\<lambda>x. if sender_id x = sender_id m \<and> recipient_id x = u \<and> \<not> read x
                                then x\<lparr>read := True\<rparr> else x) s
              \<and> find (\<lambda>x. id_msg x = id_msg m) s'
                  = Some (if u = recipient_id m then m\<lparr>read := True\<rparr> else m))"
proof -
  obtain s' where 1: "markAsRead_query u (sender_id m) s = Inr s'"
    and 2: "find (\<lambda>x. id_msg x = id_msg m) s' = Some (if u = recipient_id m then m\<lparr>read := True\<rparr> else m)"
    using markAsRead_row[OF assms(1,2) refl] by blast
  from 1 markAsRead_query_eq[OF assms(1), of u "sender_id m"]
  have 3: "s' = map (\<lambda>x. if sender_id x = sender_id m \<and> recipient_id x = u \<and> \<not> read x
                            then x\<lparr>read := True\<rparr> else x) s"
    by simp
  show ?thesis
    using delete_query_eq[OF assms(1,2)] edit_query_eq[OF assms] 1 2 3 by blast
qed

theorem owner_only_effects_witness:
  "store_reach [msg_hello, msg_to_30] \<and> msg_hello \<in> set [msg_hello, msg_to_30]
   \<and> ascii ''hey'' \<noteq> [] \<and> length (ascii ''hey'') \<le> 1000
   \<and> delete_query 30 msg_hello [msg_hello, msg_to_30] = Inr [msg_hello, msg_to_30]
   \<and> edit_query 30 msg_hello (ascii ''hey'') [msg_hello, msg_to_30] = Inr [msg_hello, msg_to_30]
   \<and> markAsRead_query 30 (sender_id msg_hello) [msg_hello, msg_to_30]
       = Inr [msg_hello, msg_to_30\<lparr>read := True\<rparr>]
   \<and> delete_query 10 msg_hello [msg_hello, msg_to_30] = Inr [msg_to_30]
   \<and> edit_query 10 msg_hello (ascii ''hey'') [msg_hello, msg_to_30]
       = Inr [msg_hello\<lparr>content := ascii ''hey''\<rparr>, msg_to_30]
   \<and> markAsRead_query 20 (sender_id msg_hello) [msg_hello, msg_to_30]
       = Inr [msg_hello\<lparr>read := True\<rparr>, msg_to_30]"
proof -
  have m: "msg_hello \<in> set [msg_hello, msg_to_30]"
    and c: "ascii ''hey'' \<noteq> []" and l: "length (ascii ''hey'') \<le> 1000"
    by (simp_all add: ascii_def)
  have f: "sender_id msg_hello = 10" "recipient_id msg_hello = 20" "id_msg msg_hello = 2"
    "read msg_hello = False"
    "sender_id msg_to_30 = 10" "recipient_id msg_to_30 = 30" "id_msg msg_to_30 = 5"
    "read msg_to_30 = False"
    by (simp_all add: msg_hello_def msg_to_30_def)
  from owner_only_effects[OF store_reach_hello_to_30 m c l, of 30]
    owner_only_effects[OF store_reach_hello_to_30 m c l, of 10]
    owner_only_effects[OF store_reach_hello_to_30 m c l, of 20]
    store_reach_hello_to_30 m c l
  show ?thesis by (simp add: f)
qed

text \<open>
  C3. A send with a pending attachment (signed in, chat open, no send under way, not an
  edit) calls \<open>uploadAttachment\<close> first. When the file can be read, the storage answers,
  the path is free and a public url comes back, that call stores the object under the
  path and returns the url, the type and the metadata. If the call returns nothing, the
  send ends there: the table and the cache are unchanged, the pending attachment and the
  typed text stay in the composer and sending is possible again. If it returns a
  payload, the object is in the bucket and the send goes on to the insert, on the state
  the upload left; when the database accepts the row, the table and the cache gain
  exactly that row, whose attachment url is the url of the upload, and the composer is
  cleared. Every row the send creates with an attachment url therefore comes from an
  upload that returned, and the object behind the url is in the bucket.
\<close>

theorem upload_before_create:
  assumes "user st = Some u" and "id_chat st = Some i" and "\<not> sending st"
    and "editingMessage st = None" and "pendingAttachment st = Some pa"
  shows
    "(\<forall>n url. fetch_bytes e = Some n \<and> storage_up e
          \<and> (u, date_now e, safeFileName (fileName pa)) \<notin> set (chat_media sv)
          \<and> getPublicUrl e (u, date_now e, safeFileName (fileName pa)) = Some url \<longrightarrow>
        uploadAttachment e pa (sv, st\<lparr>sending := True\<rparr>)
          = (Some (url, type_pa pa,
                   \<lparr>file_name = fileName pa,
                    file_size = (case size_pa pa of Some k \<Rightarrow> k | None \<Rightarrow> n),
                    mime_type = mimeType pa\<rparr>),
             sv\<lparr>chat_media := chat_media sv @ [(u, date_now e, safeFileName (fileName pa))]\<rparr>,
             st\<lparr>sending := True, uploadingAttachment := False\<rparr>))
     \<and> (case uploadAttachment e pa (sv, st\<lparr>sending := True\<rparr>) of
          (None, sv1, st1) \<Rightarrow>
            sendMessage e (sv, st) = (sv1, st1\<lparr>sending := False\<rparr>)
            \<and> tbl sv1 = tbl sv \<and> messages st1 = messages st
            \<and> pendingAttachment st1 = Some pa \<and> newMessage st1 = newMessage st
        | (Some payload, sv1, st1) \<Rightarrow>
            sendMessage e (sv, st)
              = insert_path e u i (trim (newMessage st)) (Some payload) (sv1, st1)
            \<and> tbl sv1 = tbl sv \<and> profile_ids sv1 = profile_ids sv
            \<and> (\<exists>p\<in>set (chat_media sv1). getPublicUrl e p = Some (fst payload))
            \<and> attachment_url (new_row e u i (trim (newMessage st)) (Some payload))
                = Some (fst payload)
            \<and> (\<forall>d. db_insert u (profile_ids sv)
                       (new_row e u i (trim (newMessage st)) (Some payload)) (tbl sv) = Inr d \<longrightarrow>
                  sendMessage e (sv, st)
                    = (sv1\<lparr>tbl := tbl sv @ [new_row e u i (trim (newMessage st)) (Some payload)]\<rparr>,
                       (resetComposer
                          (st1\<lparr>messages :=
                                 messages st @ [new_row e u i (trim (newMessage st)) (Some payload)]\<rparr>))
                       \<lparr>sending := False\<rparr>)))
     \<and> (\<forall>m\<in>set (tbl (fst (sendMessage e (sv, st)))).
          id_msg m \<notin> set (map id_msg (tbl sv)) \<longrightarrow>
          (\<forall>url. attachment_url m = Some url \<longrightarrow>
              fst (uploadAttachment e pa (sv, st\<lparr>sending := True\<rparr>)) \<noteq> None
            \<and> (\<exists>p\<in>set (chat_media (fst (sendMessage e (sv, st)))). getPublicUrl e p = Some url)))"
proof (intro conjI)
  show "\<forall>n url. fetch_bytes e = Some n \<and> storage_up e
          \<and> (u, date_now e, safeFileName (fileName pa)) \<notin> set (chat_media sv)
          \<and> getPublicUrl e (u, date_now e, safeFileName (fileName pa)) = Some url \<longrightarrow>
        uploadAttachment e pa (sv, st\<lparr>sending := True\<rparr>)
          = (Some (url, type_pa pa,
                   \<lparr>file_name = fileName pa,
                    file_size = (case size_pa pa of Some k \<Rightarrow> k | None \<Rightarrow> n),
                    mime_type = mimeType pa\<rparr>),
             sv\<lparr>chat_media := chat_media sv @ [(u, date_now e, safeFileName (fileName pa))]\<rparr>,
             st\<lparr>sending := True, uploadingAttachment := False\<rparr>)"
    using assms(1) by (auto simp: uploadAttachment_performs)
next
  obtain r sv1 st1 where up: "uploadAttachment e pa (sv, st\<lparr>sending := True\<rparr>) = (r, sv1, st1)"
    by (metis prod_cases3)
  note k = uploadAttachment_keeps[OF up]
  note sm = sendMessage_pending[OF assms up]
  show "case uploadAttachment e pa (sv, st\<lparr>sending := True\<rparr>) of
          (None, sv1, st1) \<Rightarrow>
            sendMessage e (sv, st) = (sv1, st1\<lparr>sending := False\<rparr>)
            \<and> tbl sv1 = tbl sv \<and> messages st1 = messages st
            \<and> pendingAttachment st1 = Some pa \<and> newMessage st1 = newMessage st
        | (Some payload, sv1, st1) \<Rightarrow>
            sendMessage e (sv, st)
              = insert_path e u i (trim (newMessage st)) (Some payload) (sv1, st1)
            \<and> tbl sv1 = tbl sv \<and> profile_ids sv1 = profile_ids sv
            \<and> (\<exists>p\<in>set (chat_media sv1). getPublicUrl e p = Some (fst payload))
            \<and> attachment_url (new_row e u i (trim (newMessage st)) (Some payload))
                = Some (fst payload)
            \<and> (\<forall>d. db_insert u (profile_ids sv)
                       (new_row e u i (trim (newMessage st)) (Some payload)) (tbl sv) = Inr d \<longrightarrow>
                  sendMessage e (sv, st)
                    = (sv1\<lparr>tbl := tbl sv @ [new_row e u i (trim (newMessage st)) (Some payload)]\<rparr>,
                       (resetComposer
                          (st1\<lparr>messages :=
                                 messages st @ [new_row e u i (trim (newMessage st)) (Some payload)]\<rparr>))
                       \<lparr>sending := False\<rparr>))"
  proof (cases r)
    case None
    with up sm k assms(5) show ?thesis by simp
  next
    case (Some payload)
    have st: "uploadAttachment e pa (sv, st\<lparr>sending := True\<rparr>) = (Some payload, sv1, st1)"
      using up Some by simp
    have a: "sendMessage e (sv, st) = insert_path e u i (trim (newMessage st)) (Some payload) (sv1, st1)"
      using sm Some by simp
    have b: "tbl sv1 = tbl sv" and b': "messages st1 = messages st" using k by simp_all
    have c: "profile_ids sv1 = profile_ids sv" using up by (rule uploadAttachment_profiles)
    have d: "\<exists>p\<in>set (chat_media sv1). getPublicUrl e p = Some (fst payload)"
      using st by (rule uploadAttachment_stored)
    have f: "attachment_url (new_row e u i (trim (newMessage st)) (Some payload)) = Some (fst payload)"
      by (simp add: new_row_def)
    have g: "\<forall>d. db_insert u (profile_ids sv)
                 (new_row e u i (trim (newMessage st)) (Some payload)) (tbl sv) = Inr d \<longrightarrow>
               sendMessage e (sv, st)
                 = (sv1\<lparr>tbl := tbl sv @ [new_row e u i (trim (newMessage st)) (Some payload)]\<rparr>,
                    (resetComposer
                       (st1\<lparr>messages :=
                              messages st @ [new_row e u i (trim (newMessage st)) (Some payload)]\<rparr>))
                    \<lparr>sending := False\<rparr>)"
    proof (intro allI impI)
      fix d
      assume "db_insert u (profile_ids sv)
                (new_row e u i (trim (newMessage st)) (Some payload)) (tbl sv) = Inr d"
      then have "db_insert u (profile_ids sv1)
                (new_row e u i (trim (newMessage st)) (Some payload)) (tbl sv1) = Inr d"
        using b c by simp
      from insert_path_ok[OF this, of st1] a b b'
      show "sendMessage e (sv, st)
                 = (sv1\<lparr>tbl := tbl sv @ [new_row e u i (trim (newMessage st)) (Some payload)]\<rparr>,
                    (resetComposer
                       (st1\<lparr>messages :=
                              messages st @ [new_row e u i (trim (newMessage st)) (Some payload)]\<rparr>))
                    \<lparr>sending := False\<rparr>)"
        by simp
    qed
    show ?thesis unfolding st using a b c d f g by simp
  qed
next
  show "\<forall>m\<in>set (tbl (fst (sendMessage e (sv, st)))).
          id_msg m \<notin> set (map id_msg (tbl sv)) \<longrightarrow>
          (\<forall>url. attachment_url m = Some url \<longrightarrow>
              fst (uploadAttachment e pa (sv, st\<lparr>sending := True\<rparr>)) \<noteq> None
            \<and> (\<exists>p\<in>set (chat_media (fst (sendMessage e (sv, st)))). getPublicUrl e p = Some url))"
    using sendMessage_created[OF assms] by blast
qed

theorem upload_before_create_witness:
  "user chat_photo = Some 10 \<and> id_chat chat_photo = Some 20 \<and> \<not> sending chat_photo
   \<and> editingMessage chat_photo = None \<and> pendingAttachment chat_photo = Some photo
   \<and> sendMessage env_offline (server_ab, chat_photo)
       = (server_ab, chat_photo\<lparr>alerts := [''Upload failed'']\<rparr>)
   \<and> uploadAttachment env_online photo (server_ab, chat_photo\<lparr>sending := True\<rparr>)
       = (Some photo_payload, server_photo, chat_photo\<lparr>sending := True\<rparr>)
   \<and> sendMessage env_online (server_ab, chat_photo)
       = (server_photo\<lparr>tbl := [msg_hello, msg_photo]\<rparr>,
          chat_ab\<lparr>messages := [msg_hello, msg_photo]\<rparr>)
   \<and> attachment_url msg_photo = Some (fst photo_payload)
   \<and> photo_path \<in> set (chat_media server_photo)
   \<and> getPublicUrl env_online photo_path = Some (fst photo_payload)"
proof -
  have h: "user chat_photo = Some 10" "id_chat chat_photo = Some 20" "\<not> sending chat_photo"
    "editingMessage chat_photo = None" "pendingAttachment chat_photo = Some photo"
    by (simp_all add: chat_photo_def chat_ab_def)
  note off = upload_before_create[OF h, of env_offline server_ab]
  note on = upload_before_create[OF h, of env_online server_ab]
  have off2: "sendMessage env_offline (server_ab, chat_photo)
             = (server_ab, chat_photo\<lparr>sending := True, alerts := [''Upload failed'']\<rparr>\<lparr>sending := False\<rparr>)"
    using off by (simp add: upload_offline)
  have 1: "sendMessage env_offline (server_ab, chat_photo)
             = (server_ab, chat_photo\<lparr>alerts := [''Upload failed'']\<rparr>)"
    unfolding off2 by (simp add: chat_photo_def chat_ab_def)
  have on2: "\<forall>d. db_insert 10 (profile_ids server_ab) msg_photo (tbl server_ab) = Inr d \<longrightarrow>
        sendMessage env_online (server_ab, chat_photo)
          = (server_photo\<lparr>tbl := tbl server_ab @ [msg_photo]\<rparr>,
             (resetComposer (chat_photo\<lparr>sending := True, messages := messages chat_photo @ [msg_photo]\<rparr>))
             \<lparr>sending := False\<rparr>)"
    using on unfolding upload_online prod.case option.case new_row_photo by blast
  from on2 insert_photo
  have on3: "sendMessage env_online (server_ab, chat_photo)
          = (server_photo\<lparr>tbl := tbl server_ab @ [msg_photo]\<rparr>,
             (resetComposer (chat_photo\<lparr>sending := True, messages := messages chat_photo @ [msg_photo]\<rparr>))
             \<lparr>sending := False\<rparr>)"
    by blast
  have 2: "sendMessage env_online (server_ab, chat_photo)
             = (server_photo\<lparr>tbl := [msg_hello, msg_photo]\<rparr>,
                chat_ab\<lparr>messages := [msg_hello, msg_photo]\<rparr>)"
    unfolding on3
    by (simp add: resetComposer_def server_photo_def server_ab_def chat_photo_def chat_ab_def)
  have 3: "attachment_url msg_photo = Some (fst photo_payload)"
    "photo_path \<in> set (chat_media server_photo)"
    "getPublicUrl env_online photo_path = Some (fst photo_payload)"
    by (simp_all add: msg_photo_def photo_payload_def photo_path_def server_photo_def
        env_online_def env_offline_def)
  show ?thesis using h 1 2 3 upload_online by simp
qed

text \<open>
  C9. On a reachable table the mark-read statement returns without an error, leaves
  every row whose read flag is already set as it is, and run again on its own result
  returns that result unchanged.
\<close>

theorem mark_read_idempotent:
  assumes "store_reach s"
  shows "\<exists>s'. markAsRead_query u i s = Inr s'
            \<and> length s' = length s \<and> (\<forall>k<length s. read (s ! k) \<longrightarrow> s' ! k = s ! k)
            \<and> markAsRead_query u i s' = Inr s'"
proof -
  let ?f = "\<lambda>m. if sender_id m = i \<and> recipient_id m = u \<and> \<not> read m then m\<lparr>read := True\<rparr> else m"
  have 1: "markAsRead_query u i s = Inr (map ?f s)" using assms by (rule markAsRead_query_eq)
  have r: "store_reach (map ?f s)"
    using assms 1 unfolding markAsRead_query_def by (rule reach_update)
  have "map ?f (map ?f s) = map ?f s" by (induction s) auto
  with markAsRead_query_eq[OF r, of u i] have 2: "markAsRead_query u i (map ?f s) = Inr (map ?f s)"
    by simp
  show ?thesis using 1 2 by auto
qed

theorem mark_read_idempotent_witness:
  "store_reach [msg_hello]
   \<and> (\<exists>s'. markAsRead_query 20 10 [msg_hello] = Inr s'
            \<and> length s' = length [msg_hello]
            \<and> (\<forall>k<length [msg_hello]. read ([msg_hello] ! k) \<longrightarrow> s' ! k = [msg_hello] ! k)
            \<and> markAsRead_query 20 10 s' = Inr s')"
  using store_reach_hello mark_read_idempotent[OF store_reach_hello, of 20 10] by simp

text \<open>
  C10, as the claim states it, fails. On the screen of user 10, who edits \<open>msg_photo\<close>
  down to blanks, \<open>sendMessage\<close> returns without any alert: no error is produced. And the
  statement of the edit, run with an empty content on that row, is accepted by the
  table, which stores the empty content: the row has an attachment, and that satisfies
  the content check.
\<close>

theorem empty_edit_counterexample:
  "alerts (snd (sendMessage env_online (server_ab\<lparr>tbl := [msg_hello, msg_photo]\<rparr>, chat_edit_photo)))
     = alerts chat_edit_photo
   \<and> edit_query 10 msg_photo [] [msg_hello, msg_photo]
       = Inr [msg_hello, msg_photo\<lparr>content := []\<rparr>]"
  using edit_to_empty_at_store
  by (simp add: sendMessage_def Let_def trim_def is_space_def chat_edit_photo_def chat_ab_def)

text \<open>
  C10, amended. While a message is being edited, a send whose text is empty after
  trimming is not carried out: \<open>sendMessage\<close> returns at its guard, no statement reaches
  the table, no alert is raised, the table, the cache and the composer stay as they
  are, and the send button is disabled. This holds whether or not the edited message
  carries an attachment.
\<close>

theorem empty_edit_ignored:
  assumes "editingMessage st = Some em" and "trim (newMessage st) = []"
  shows "sendMessage e (sv, st) = (sv, st) \<and> \<not> canSend st"
  using assms by (auto simp: sendMessage_def canSend_def Let_def split: option.splits)

theorem empty_edit_ignored_witness:
  "editingMessage chat_edit_photo = Some msg_photo \<and> trim (newMessage chat_edit_photo) = []
   \<and> newMessage chat_edit_photo \<noteq> []
   \<and> attachment_url msg_photo \<noteq> None
   \<and> sendMessage env_online (server_ab, chat_edit_photo) = (server_ab, chat_edit_photo)
   \<and> \<not> canSend chat_edit_photo"
proof -
  have a: "editingMessage chat_edit_photo = Some msg_photo"
    by (simp add: chat_edit_photo_def)
  have b: "trim (newMessage chat_edit_photo) = []" and b': "newMessage chat_edit_photo \<noteq> []"
    by (simp_all add: chat_edit_photo_def trim_def is_space_def)
  have c: "attachment_url msg_photo \<noteq> None" by (simp add: msg_photo_def)
  from a b b' c empty_edit_ignored[OF a b, of env_online server_ab] show ?thesis by simp
qed

text \<open>
  C7. For a viewer, the unread count of every conversation row that
  \<open>fetchConversations\<close> builds is the number of stored messages sent by the row's
  counterpart to the viewer and not read; a counterpart without a row has no such
  message. After \<open>markAsRead\<close> of the chat screen of the viewer opened on a counterpart,
  no such message of that counterpart is left, and the row of that counterpart, if
  there is one, counts 0.
\<close>

theorem unread_accounting:
  assumes "store_reach (tbl sv)" and "user st = Some viewer" and "id_chat st = Some k"
  shows "(\<forall>c\<in>set (fetchConversations (Some viewer) sp ip (tbl sv) prev).
            unreadCount c
              = length (filter (\<lambda>m. sender_id m = otherUserId c \<and> recipient_id m = viewer \<and> \<not> read m)
                          (tbl sv)))
       \<and> (\<forall>other. other \<notin> otherUserId ` set (fetchConversations (Some viewer) sp ip (tbl sv) prev) \<longrightarrow>
            filter (\<lambda>m. sender_id m = other \<and> recipient_id m = viewer \<and> \<not> read m) (tbl sv) = [])
       \<and> filter (\<lambda>m. sender_id m = k \<and> recipient_id m = viewer \<and> \<not> read m)
            (tbl (fst (markAsRead (sv, st)))) = []
       \<and> (\<forall>c\<in>set (fetchConversations (Some viewer) sp ip (tbl (fst (markAsRead (sv, st)))) prev).
            otherUserId c = k \<longrightarrow> unreadCount c = 0)"
proof (intro conjI ballI allI impI)
  fix c assume "c \<in> set (fetchConversations (Some viewer) sp ip (tbl sv) prev)"
  then show "unreadCount c
      = length (filter (\<lambda>m. sender_id m = otherUserId c \<and> recipient_id m = viewer \<and> \<not> read m) (tbl sv))"
    by (rule conversation_unread)
next
  fix other assume "other \<notin> otherUserId ` set (fetchConversations (Some viewer) sp ip (tbl sv) prev)"
  then show "filter (\<lambda>m. sender_id m = other \<and> recipient_id m = viewer \<and> \<not> read m) (tbl sv) = []"
    by (rule no_conversation_no_unread)
next
  show "filter (\<lambda>m. sender_id m = k \<and> recipient_id m = viewer \<and> \<not> read m)
          (tbl (fst (markAsRead (sv, st)))) = []"
    using assms by (rule markAsRead_leaves_none)
next
  fix c assume c: "c \<in> set (fetchConversations (Some viewer) sp ip (tbl (fst (markAsRead (sv, st)))) prev)"
    and k: "otherUserId c = k"
  show "unreadCount c = 0"
    unfolding conversation_unread[OF c] k using markAsRead_leaves_none[OF assms] by simp
qed

theorem unread_accounting_witness:
  "store_reach (tbl server_ab) \<and> user chat_ba = Some 20 \<and> id_chat chat_ba = Some 10
   \<and> map unreadCount (fetchConversations (Some 20) [] [(10, ''Ann'')] (tbl server_ab) []) = [1]
   \<and> length (filter (\<lambda>m. sender_id m = 10 \<and> recipient_id m = 20 \<and> \<not> read m) (tbl server_ab)) = 1
   \<and> filter (\<lambda>m. sender_id m = 10 \<and> recipient_id m = 20 \<and> \<not> read m)
        (tbl (fst (markAsRead (server_ab, chat_ba)))) = []"
proof -
  have r: "store_reach (tbl server_ab)"
    by (simp add: server_ab_def store_reach_hello)
  have u: "user chat_ba = Some 20" and i: "id_chat chat_ba = Some 10"
    by (simp_all add: chat_ba_def chat_ab_def)
  have e: "map unreadCount (fetchConversations (Some 20) [] [(10, ''Ann'')] (tbl server_ab) []) = [1]"
    by (simp add: server_ab_def conversations_of_20)
  have n: "length (filter (\<lambda>m. sender_id m = 10 \<and> recipient_id m = 20 \<and> \<not> read m) (tbl server_ab)) = 1"
    by (simp add: server_ab_def msg_hello_def)
  from unread_accounting[OF r u i, of "[]" "[(10, ''Ann'')]" "[]"] r u i e n
  show ?thesis by blast
qed

text \<open>
  C8. For a viewer, \<open>fetchConversations\<close> returns one row for each counterpart the
  viewer has exchanged a message with and no other row; the preview and the time of a
  row are those of a message exchanged with its counterpart whose \<open>created_at\<close> no
  other such message exceeds; the rows come in non-increasing order of that time.
\<close>

theorem one_conversation_per_counterpart:
  "distinct (map otherUserId (fetchConversations (Some viewer) sp ip s prev))
   \<and> set (map otherUserId (fetchConversations (Some viewer) sp ip s prev))
       = {k. \<exists>m\<in>set s. between viewer k m}
   \<and> (\<forall>c\<in>set (fetchConversations (Some viewer) sp ip s prev).
        \<exists>m\<in>set s. between viewer (otherUserId c) m
          \<and> lastMessage c = getMessagePreview m \<and> lastMessageTime c = created_at m
          \<and> (\<forall>m'\<in>set s. between viewer (otherUserId c) m' \<longrightarrow> created_at m' \<le> created_at m))
   \<and> sorted_wrt (\<ge>) (map lastMessageTime (fetchConversations (Some viewer) sp ip s prev))"
proof (intro conjI ballI)
  show "distinct (map otherUserId (fetchConversations (Some viewer) sp ip s prev))"
    by (rule conversation_distinct)
  show "set (map otherUserId (fetchConversations (Some viewer) sp ip s prev))
          = {k. \<exists>m\<in>set s. between viewer k m}"
    by (rule conversation_keys)
  show "sorted_wrt (\<ge>) (map lastMessageTime (fetchConversations (Some viewer) sp ip s prev))"
    by (rule conversation_sorted)
next
  fix c assume "c \<in> set (fetchConversations (Some viewer) sp ip s prev)"
  then show "\<exists>m\<in>set s. between viewer (otherUserId c) m
          \<and> lastMessage c = getMessagePreview m \<and> lastMessageTime c = created_at m
          \<and> (\<forall>m'\<in>set s. between viewer (otherUserId c) m' \<longrightarrow> created_at m' \<le> created_at m)"
    by (rule conversation_latest)
qed

theorem one_conversation_per_counterpart_witness:
  "map (\<lambda>c. (otherUserId c, lastMessageTime c, unreadCount c))
     (fetchConversations (Some 10) [] [] [msg_hello, msg_reply, msg_doc, msg_photo] [])
     = [(20, 200, 1), (30, 150, 0)]
   \<and> distinct (map otherUserId
        (fetchConversations (Some 10) [] [] [msg_hello, msg_reply, msg_doc, msg_photo] []))
   \<and> set (map otherUserId
        (fetchConversations (Some 10) [] [] [msg_hello, msg_reply, msg_doc, msg_photo] []))
       = {k. \<exists>m\<in>set [msg_hello, msg_reply, msg_doc, msg_photo]. between 10 k m}
   \<and> sorted_wrt (\<ge>) (map lastMessageTime
        (fetchConversations (Some 10) [] [] [msg_hello, msg_reply, msg_doc, msg_photo] []))"
  using conversations_of_10
    one_conversation_per_counterpart[of 10 "[]" "[]" "[msg_hello, msg_reply, msg_doc, msg_photo]" "[]"]
  by blast

end
